(* ===== verification/Prelude.thy ===== *)
theory Prelude
  imports Main "HOL-Library.Word" "HOL-Library.Monad_Syntax"
begin

unbundle bit_operations_syntax

text \<open>
  Shared vocabulary of the development: machine words, bytes, the memory a C pointer points
  into, and the option monad in which all code that touches memory is written.

  A block of memory is the list of its bytes and a pointer into it is an index. A function of
  type \<open>'a option\<close> returns \<open>None\<close> when the C code would have undefined behaviour (a load or
  a store outside the block, a C string without its terminator, a fixed-size array overrun, the
  use of indeterminate bytes) or would not return; every other outcome of the code, errors
  included, is a value under \<open>Some\<close>. A C pointer that may be NULL is a \<open>nat option\<close>.
\<close>

section \<open>Words and bytes\<close>

type_synonym byte = "8 word"
type_synonym u16 = "16 word"
type_synonym u32 = "32 word"
type_synonym u64 = "64 word"
type_synonym mem = "8 word list"

text \<open>The bytes of a string literal (without the terminating NUL).\<close>

definition str :: "string \<Rightarrow> byte list" where
  "str s = map of_char s"

lemma str_Nil [simp]: "str [] = []"
  by (simp add: str_def)

lemma str_Cons [simp]: "str (c # s) = of_char c # str s"
  by (simp add: str_def)

abbreviation NUL :: byte where "NUL \<equiv> 0"
abbreviation LF :: byte where "LF \<equiv> 10"
abbreviation CR :: byte where "CR \<equiv> 13"
abbreviation SP :: byte where "SP \<equiv> 32"

section \<open>Automation shared by the components\<close>

named_theorems mem_simps \<open>evaluation of loads, stores and regions that are in bounds\<close>
named_theorems ct_simps \<open>effect of each call table operation on the fields of its state\<close>
named_theorems ct_inv \<open>preservation of the call table invariant\<close>

lemma bind_Some_iff:
  "Option.bind m f = Some y \<longleftrightarrow> (\<exists>x. m = Some x \<and> f x = Some y)"
  by (cases m) auto

lemma bind_defined:
  assumes "m \<noteq> None" and "\<And>x. m = Some x \<Longrightarrow> f x \<noteq> None"
  shows "Option.bind m f \<noteq> None"
  using assms by (cases m) auto

lemma bind_SomeE:
  assumes "Option.bind m f = Some y"
  obtains x where "m = Some x" "f x = Some y"
  using assms by (cases m) auto

section \<open>Loads, stores and regions\<close>

definition rd8 :: "mem \<Rightarrow> nat \<Rightarrow> byte option" where
  "rd8 m i = (if i < length m then Some (m ! i) else None)"

definition wr8 :: "mem \<Rightarrow> nat \<Rightarrow> byte \<Rightarrow> mem option" where
  "wr8 m i b = (if i < length m then Some (m[i := b]) else None)"

text \<open>The \<open>n\<close> bytes at \<open>p\<close>, as \<open>memcpy\<close> and \<open>memcmp\<close> read them.\<close>

definition region :: "mem \<Rightarrow> nat \<Rightarrow> nat \<Rightarrow> byte list option" where
  "region m p n = (if p + n \<le> length m then Some (take n (drop p m)) else None)"

text \<open>\<open>memcpy\<close> of \<open>bs\<close> to the start of the array \<open>buf\<close>.\<close>

definition put_bytes :: "byte list \<Rightarrow> byte list \<Rightarrow> byte list option" where
  "put_bytes buf bs =
     (if length bs \<le> length buf then Some (bs @ drop (length bs) buf) else None)"

text \<open>Native 16 and 32 bit loads of the little-endian hosts the program is built for.\<close>

definition ld16 :: "mem \<Rightarrow> nat \<Rightarrow> u16 option" where
  "ld16 m i = do {
     a \<leftarrow> rd8 m i; b \<leftarrow> rd8 m (i + 1);
     Some (ucast a OR push_bit 8 (ucast b)) }"

definition ld32 :: "mem \<Rightarrow> nat \<Rightarrow> u32 option" where
  "ld32 m i = do {
     a \<leftarrow> rd8 m i; b \<leftarrow> rd8 m (i + 1); c \<leftarrow> rd8 m (i + 2); d \<leftarrow> rd8 m (i + 3);
     Some (ucast a OR push_bit 8 (ucast b) OR push_bit 16 (ucast c) OR push_bit 24 (ucast d)) }"

lemma rd8_Some [mem_simps]: "i < length m \<Longrightarrow> rd8 m i = Some (m ! i)"
  by (simp add: rd8_def)

lemma rd8_eq_Some: "rd8 m i = Some b \<longleftrightarrow> i < length m \<and> m ! i = b"
  by (simp add: rd8_def)

lemma wr8_Some [mem_simps]: "i < length m \<Longrightarrow> wr8 m i b = Some (m[i := b])"
  by (simp add: wr8_def)

lemma region_Some [mem_simps]: "p + n \<le> length m \<Longrightarrow> region m p n = Some (take n (drop p m))"
  by (simp add: region_def)

lemma region_eq_Some:
  "region m p n = Some bs \<longleftrightarrow> p + n \<le> length m \<and> bs = take n (drop p m)"
  by (auto simp: region_def)

lemma length_region: "region m p n = Some bs \<Longrightarrow> length bs = n"
  by (auto simp: region_eq_Some)

lemma ld16_defined: "i + 2 \<le> length m \<Longrightarrow> ld16 m i \<noteq> None"
  by (simp add: ld16_def mem_simps)

lemma ld32_defined: "i + 4 \<le> length m \<Longrightarrow> ld32 m i \<noteq> None"
  by (simp add: ld32_def mem_simps)

lemma put_bytes_length: "put_bytes buf bs = Some buf' \<Longrightarrow> length buf' = length buf"
  by (auto simp: put_bytes_def split: if_splits)

lemma put_bytes_eq_None: "put_bytes buf bs = None \<longleftrightarrow> length buf < length bs"
  by (auto simp: put_bytes_def)

text \<open>Every position of \<open>[lo, hi)\<close> satisfies \<open>P\<close>.\<close>

definition range_all :: "(nat \<Rightarrow> bool) \<Rightarrow> nat \<Rightarrow> nat \<Rightarrow> bool" where
  "range_all P lo hi \<longleftrightarrow> (\<forall>j\<in>{lo..<hi}. P j)"

lemma range_allD: "range_all P lo hi \<Longrightarrow> lo \<le> j \<Longrightarrow> j < hi \<Longrightarrow> P j"
  by (simp add: range_all_def)

lemma range_allI: "(\<And>j. lo \<le> j \<Longrightarrow> j < hi \<Longrightarrow> P j) \<Longrightarrow> range_all P lo hi"
  by (simp add: range_all_def)

lemma range_all_empty [simp]: "hi \<le> lo \<Longrightarrow> range_all P lo hi"
  by (simp add: range_all_def)

lemma range_all_Suc: "P lo \<Longrightarrow> range_all P (Suc lo) hi \<Longrightarrow> range_all P lo hi"
  unfolding range_all_def by (metis Suc_leI atLeastLessThan_iff le_neq_implies_less)

section \<open>First match in a list\<close>

text \<open>The index the loops \<open>for (i = 0; i < n; i++) if (P(table[i])) return i;\<close> return.\<close>

fun find_index :: "('a \<Rightarrow> bool) \<Rightarrow> 'a list \<Rightarrow> nat option" where
  "find_index P [] = None"
| "find_index P (x # xs) = (if P x then Some 0 else map_option Suc (find_index P xs))"

lemma find_index_Some:
  "find_index P xs = Some i \<longleftrightarrow> i < length xs \<and> P (xs ! i) \<and> (\<forall>j<i. \<not> P (xs ! j))"
proof (induction xs arbitrary: i)
  case Nil
  then show ?case by simp
next
  case (Cons x xs)
  show ?case
    by (cases i) (auto simp: Cons.IH less_Suc_eq_0_disj)
qed

lemma find_index_None: "find_index P xs = None \<longleftrightarrow> (\<forall>x \<in> set xs. \<not> P x)"
  by (induction xs) auto

end
