(* ===== verification/CStrings.thy ===== *)
theory CStrings
  imports Prelude
begin

text \<open>
  The C string functions the program calls, and its own fallback \<open>memmem\<close>
  (\<open>pcapsipdump.cpp\<close>, compiled where \<open>_GNU_SOURCE\<close> is not defined; the C library's function
  has the same contract). Functions on NUL-terminated strings take the bytes from the pointer to
  the end of its memory block (\<open>drop p m\<close>) and are \<open>None\<close> when they run off that end.
\<close>

section \<open>Character classes of the C locale\<close>

definition isspace :: "byte \<Rightarrow> bool" where
  "isspace b = (b = 32 \<or> 9 \<le> b \<and> b \<le> 13)"

definition isupper :: "byte \<Rightarrow> bool" where
  "isupper b = (65 \<le> b \<and> b \<le> 90)"

definition isdigit :: "byte \<Rightarrow> bool" where
  "isdigit b = (48 \<le> b \<and> b \<le> 57)"

definition tolower :: "byte \<Rightarrow> byte" where
  "tolower b = (if isupper b then b + 32 else b)"

lemma tolower_eq_0 [simp]: "tolower b = 0 \<longleftrightarrow> b = 0"
proof -
  have "b + 32 \<noteq> 0" if "65 \<le> b" "b \<le> 90"
    using that by unat_arith auto
  then show ?thesis by (auto simp: tolower_def isupper_def)
qed

lemma tolower_0 [simp]: "tolower 0 = 0"
  by simp

section \<open>NUL-terminated strings\<close>

fun c_str :: "byte list \<Rightarrow> byte list option" where
  "c_str [] = None"
| "c_str (b # bs) = (if b = 0 then Some [] else map_option (Cons b) (c_str bs))"

definition strlen :: "byte list \<Rightarrow> nat option" where
  "strlen s = map_option length (c_str s)"

text \<open>Offset of the first \<open>c\<close>; \<open>Some None\<close> is a NULL result.\<close>

fun strchr :: "byte list \<Rightarrow> byte \<Rightarrow> nat option option" where
  "strchr [] c = None"
| "strchr (b # bs) c =
     (if b = c then Some (Some 0) else if b = 0 then Some None
      else map_option (map_option Suc) (strchr bs c))"

text \<open>\<open>strncmp (lit, s, strlen (lit)) == 0\<close> for a literal without NUL.\<close>

fun strncmp_lit :: "byte list \<Rightarrow> byte list \<Rightarrow> bool option" where
  "strncmp_lit [] s = Some True"
| "strncmp_lit (c # cs) [] = None"
| "strncmp_lit (c # cs) (b # bs) = (if c = b then strncmp_lit cs bs else Some False)"

text \<open>\<open>strncasecmp (s, t, n) == 0\<close>.\<close>

fun strncasecmp_eq :: "nat \<Rightarrow> byte list \<Rightarrow> byte list \<Rightarrow> bool option" where
  "strncasecmp_eq 0 s t = Some True"
| "strncasecmp_eq (Suc n) (b # bs) (c # cs) =
     (if tolower b \<noteq> tolower c then Some False
      else if b = 0 then Some True else strncasecmp_eq n bs cs)"
| "strncasecmp_eq (Suc n) s t = None"

text \<open>Offset of the first occurrence of a literal in a NUL-terminated string.\<close>

fun strstr :: "byte list \<Rightarrow> byte list \<Rightarrow> nat option option" where
  "strstr [] nd = (if nd = [] then Some (Some 0) else None)"
| "strstr (b # bs) nd = do {
     eq \<leftarrow> strncmp_lit nd (b # bs);
     if eq then Some (Some 0) else if b = 0 then Some None
     else map_option (map_option Suc) (strstr bs nd) }"

lemma c_str_eq: "0 \<in> set s \<Longrightarrow> c_str s = Some (takeWhile (\<lambda>b. b \<noteq> 0) s)"
  by (induction s) auto

lemma c_str_append_NUL: "0 \<notin> set s \<Longrightarrow> c_str (s @ 0 # r) = Some s"
  by (induction s) auto

lemma c_str_None: "c_str s = None \<longleftrightarrow> 0 \<notin> set s"
  by (induction s) auto

lemma c_str_SomeD:
  "c_str s = Some t \<Longrightarrow> 0 \<in> set s \<and> t = takeWhile (\<lambda>b. b \<noteq> 0) s"
  by (metis c_str_None c_str_eq option.distinct(1) option.inject)

lemma c_str_no_NUL: "c_str s = Some t \<Longrightarrow> 0 \<notin> set t"
  by (auto dest!: c_str_SomeD set_takeWhileD)

lemma c_str_length: "c_str s = Some t \<Longrightarrow> length t < length s"
  by (induction s arbitrary: t) (auto split: if_splits)

lemma strchr_defined: "0 \<in> set s \<or> c \<in> set s \<Longrightarrow> strchr s c \<noteq> None"
  by (induction s c rule: strchr.induct) auto

lemma strchr_SomeD:
  "strchr s c = Some (Some k) \<Longrightarrow> k < length s \<and> s ! k = c \<and> (\<forall>j<k. s ! j \<noteq> c \<and> s ! j \<noteq> 0)"
proof (induction s c arbitrary: k rule: strchr.induct)
  case (1 c)
  then show ?case by simp
next
  case (2 b bs c)
  then show ?case
    by (cases k) (auto split: if_splits simp: less_Suc_eq_0_disj)
qed

lemma strncmp_lit_defined:
  "0 \<in> set s \<Longrightarrow> 0 \<notin> set lit \<Longrightarrow> strncmp_lit lit s \<noteq> None"
  by (induction lit s rule: strncmp_lit.induct) auto

lemma strncmp_lit_True: "strncmp_lit lit s = Some True \<longleftrightarrow> take (length lit) s = lit"
  by (induction lit s rule: strncmp_lit.induct) auto

lemma strstr_defined:
  "0 \<in> set s \<Longrightarrow> 0 \<notin> set nd \<Longrightarrow> strstr s nd \<noteq> None"
proof (induction s nd rule: strstr.induct)
  case (1 nd)
  then show ?case by simp
next
  case (2 b bs nd)
  from 2(2,3) have "strncmp_lit nd (b # bs) \<noteq> None" by (rule strncmp_lit_defined)
  then obtain eq where "strncmp_lit nd (b # bs) = Some eq" by blast
  with 2 show ?case by (cases eq) auto
qed

lemma strncasecmp_defined:
  "0 \<in> set s \<Longrightarrow> 0 \<in> set t \<Longrightarrow> strncasecmp_eq n s t \<noteq> None"
proof (induction n s t rule: strncasecmp_eq.induct)
  case (2 n b bs c cs)
  then show ?case
    by (cases "c = 0"; cases "b = 0") auto
qed auto

section \<open>memmem\<close>

text \<open>\<open>!memcmp (haystack, needle, nl)\<close>.\<close>

definition memcmp_eq :: "mem \<Rightarrow> nat \<Rightarrow> byte list \<Rightarrow> bool option" where
  "memcmp_eq m p needle = map_option (\<lambda>bs. bs = needle) (region m p (length needle))"

text \<open>The loop of \<open>memmem\<close>: its counter \<open>i\<close> counts the positions left, \<open>p\<close> is \<open>haystack\<close>.\<close>

fun memmem_loop :: "nat \<Rightarrow> mem \<Rightarrow> nat \<Rightarrow> byte list \<Rightarrow> nat option option" where
  "memmem_loop 0 m p needle = Some None"
| "memmem_loop (Suc i) m p needle = do {
     eq \<leftarrow> memcmp_eq m p needle;
     if eq then Some (Some p) else memmem_loop i m (p + 1) needle }"

definition memmem :: "mem \<Rightarrow> nat option \<Rightarrow> nat \<Rightarrow> byte list \<Rightarrow> nat option option" where
  "memmem m haystack hl needle =
     (if length needle > hl then Some None
      else case haystack of
        None \<Rightarrow> None
      | Some p \<Rightarrow> memmem_loop (hl - length needle + 1) m p needle)"

text \<open>\<open>needle\<close> stands at position \<open>p\<close> of \<open>m\<close>.\<close>

definition occurs :: "mem \<Rightarrow> byte list \<Rightarrow> nat \<Rightarrow> bool" where
  "occurs m needle p = (take (length needle) (drop p m) = needle)"

lemma memcmp_eq_Some:
  "p + length needle \<le> length m \<Longrightarrow> memcmp_eq m p needle = Some (occurs m needle p)"
  by (simp add: memcmp_eq_def occurs_def region_def)

lemma memmem_loop_spec:
  assumes "n = 0 \<or> p + n - 1 + length needle \<le> length m"
  shows "\<exists>r. memmem_loop n m p needle = Some r \<and>
    (case r of None \<Rightarrow> \<forall>q. p \<le> q \<and> q < p + n \<longrightarrow> \<not> occurs m needle q
     | Some q \<Rightarrow> p \<le> q \<and> q < p + n \<and> occurs m needle q \<and>
                 (\<forall>q'. p \<le> q' \<and> q' < q \<longrightarrow> \<not> occurs m needle q'))"
  using assms
proof (induction n m p needle rule: memmem_loop.induct)
  case (1 m p needle)
  then show ?case by auto
next
  case (2 i m p needle)
  from "2.prems" have eq: "memcmp_eq m p needle = Some (occurs m needle p)"
    by (intro memcmp_eq_Some) simp
  show ?case
  proof (cases "occurs m needle p")
    case True
    with eq show ?thesis by auto
  next
    case False
    from "2.prems" have "i = 0 \<or> p + 1 + i - 1 + length needle \<le> length m" by simp
    from "2.IH" [OF eq False this] obtain r where
      r: "memmem_loop i m (p + 1) needle = Some r" and
      c: "case r of None \<Rightarrow> \<forall>q. p + 1 \<le> q \<and> q < p + 1 + i \<longrightarrow> \<not> occurs m needle q
          | Some q \<Rightarrow> p + 1 \<le> q \<and> q < p + 1 + i \<and> occurs m needle q \<and>
                 (\<forall>q'. p + 1 \<le> q' \<and> q' < q \<longrightarrow> \<not> occurs m needle q')"
      by blast
    have "\<And>q. p \<le> q \<Longrightarrow> q = p \<or> p + 1 \<le> q" by arith
    with eq False r c show ?thesis
      by (cases r) (fastforce simp: less_Suc_eq_le)+
  qed
qed

lemma memmem_spec:
  assumes "p + hl \<le> length m"
  obtains (Null) "memmem m (Some p) hl needle = Some None"
      "\<And>q. p \<le> q \<Longrightarrow> q + length needle \<le> p + hl \<Longrightarrow> \<not> occurs m needle q"
  | (Found) q where "memmem m (Some p) hl needle = Some (Some q)"
      "p \<le> q" "q + length needle \<le> p + hl" "occurs m needle q"
      "\<And>q'. p \<le> q' \<Longrightarrow> q' < q \<Longrightarrow> \<not> occurs m needle q'"
proof (cases "length needle > hl")
  case True
  then show thesis by (intro Null) (auto simp: memmem_def)
next
  case False
  let ?n = "hl - length needle + 1"
  from assms False have "?n = 0 \<or> p + ?n - 1 + length needle \<le> length m" by simp
  from memmem_loop_spec [OF this] obtain r where
    r: "memmem_loop ?n m p needle = Some r" and
    c: "case r of None \<Rightarrow> \<forall>q. p \<le> q \<and> q < p + ?n \<longrightarrow> \<not> occurs m needle q
        | Some q \<Rightarrow> p \<le> q \<and> q < p + ?n \<and> occurs m needle q \<and>
               (\<forall>q'. p \<le> q' \<and> q' < q \<longrightarrow> \<not> occurs m needle q')"
    by blast
  have eq: "memmem m (Some p) hl needle = Some r"
    using False r by (simp add: memmem_def)
  show thesis
  proof (cases r)
    case None
    with c False show thesis by (intro Null) (auto simp: eq)
  next
    case (Some q)
    with c False show thesis by (intro Found [of q]) (auto simp: eq)
  qed
qed

lemma memmem_defined: "p + hl \<le> length m \<Longrightarrow> memmem m (Some p) hl needle \<noteq> None"
  by (rule memmem_spec [of p hl m needle]) auto

lemma memmem_bounds:
  "p + hl \<le> length m \<Longrightarrow> memmem m (Some p) hl needle = Some (Some q) \<Longrightarrow>
   p \<le> q \<and> q + length needle \<le> p + hl"
  by (rule memmem_spec [of p hl m needle]) auto

lemma memmem_NULL: "needle \<noteq> [] \<Longrightarrow> memmem m None 0 needle = Some None"
  by (simp add: memmem_def)

end
