(* ===== verification/Template.thy ===== *)
theory Template
  imports CStrings
begin

text \<open>
  The file name templates and directories of \<open>pcapsipdump_lib.cpp\<close>: \<open>expand_dir_template\<close>,
  \<open>mkdir_p\<close> and \<open>opts_sanity_check_d\<close>.

  String arguments are the memory from the pointer on; paths that have been read are C strings
  without their NUL. \<open>strftime\<close> (with \<open>localtime\<close>), \<open>stat\<close>, \<open>mkdir\<close>, \<open>fopen\<close> and \<open>unlink\<close> are
  parameters; the file system they work on is a state of any type.
\<close>

section \<open>expand\_dir\_template\<close>

abbreviation PERCENT :: byte where "PERCENT \<equiv> 37"
abbreviation SLASH :: byte where "SLASH \<equiv> 47"

definition asciisan :: "byte list" where
  "asciisan =
     str ''________________'' @
     str ''________________'' @
     str ''___#__&_()_+,-._'' @
     str ''0123456789_;_=__'' @
     str ''@ABCDEFGHIJKLMNO'' @
     str ''PQRSTUVWXYZ[_]^_'' @
     str ''_abcdefghijklmno'' @
     str ''pqrstuvwxyz{_}~_''"

definition sanitize :: "byte \<Rightarrow> byte" where
  "sanitize b = asciisan ! unat (b AND 0x7f)"

text \<open>
  The heap buffer \<open>s1\<close> has \<open>s1l\<close> bytes, of which \<open>out\<close> are written (\<open>s1p - s1 = length out\<close>).
  \<open>expand_arg\<close> is the branch for one of the three strings: \<open>Some None\<close> when it does not fit.
\<close>

definition put_char :: "nat \<Rightarrow> byte list \<Rightarrow> byte \<Rightarrow> byte list option" where
  "put_char s1l out c = (if length out < s1l then Some (out @ [c]) else None)"

definition expand_arg :: "nat \<Rightarrow> byte list \<Rightarrow> byte list \<Rightarrow> byte list option option" where
  "expand_arg s1l out arg = do {
     a \<leftarrow> c_str arg;
     Some (if s1l - length out > length a then Some (out @ map sanitize a) else None) }"

fun expand_loop ::
  "nat \<Rightarrow> byte list \<Rightarrow> byte list \<Rightarrow> byte list \<Rightarrow> byte list \<Rightarrow> byte list \<Rightarrow> byte list option" where
  "expand_loop s1l from to callid [] out = put_char s1l out NUL"
| "expand_loop s1l from to callid [c0] out = do {
     out \<leftarrow> put_char s1l out c0;
     expand_loop s1l from to callid [] out }"
| "expand_loop s1l from to callid (c0 # c1 # format) out = do {
     r \<leftarrow> (if c0 = PERCENT then
            if c1 = 102 then expand_arg s1l out from
            else if c1 = 116 then expand_arg s1l out to
            else if c1 = 105 then expand_arg s1l out callid
            else Some None
          else Some None);
     case r of
       Some out \<Rightarrow> expand_loop s1l from to callid format out
     | None \<Rightarrow> do {
         out \<leftarrow> put_char s1l out c0;
         expand_loop s1l from to callid (c1 # format) out } }"

text \<open>
  \<open>strftime fmt t\<close> is the text the format denotes at time \<open>t\<close>. When it does not fit \<open>maxsize\<close> bytes the
  contents of \<open>s\<close> are indeterminate; all callers go on to use them.
\<close>

definition expand_dir_template ::
  "(byte list \<Rightarrow> int \<Rightarrow> byte list) \<Rightarrow> nat \<Rightarrow> byte list \<Rightarrow> byte list \<Rightarrow> byte list \<Rightarrow> byte list \<Rightarrow> int \<Rightarrow>
   byte list option" where
  "expand_dir_template strftime maxsize format from to callid t = do {
     fmt \<leftarrow> c_str format;
     let s1l = length fmt + 256;
     s1 \<leftarrow> expand_loop s1l from to callid fmt [];
     s1 \<leftarrow> c_str s1;
     let s = strftime s1 t;
     if length s < maxsize then Some s else None }"

section \<open>mkdir\_p\<close>

text \<open>
  \<open>strlcpy (s, path, n)\<close>, or \<open>strncpy\<close> under the same name where libbsd is not used: then a path of
  \<open>n\<close> bytes or more leaves the array without a NUL.
\<close>

definition strlcpy :: "bool \<Rightarrow> nat \<Rightarrow> byte list \<Rightarrow> byte list" where
  "strlcpy bsd n path =
     (if bsd then take (n - 1) path @ [NUL] else take n (path @ replicate (n - length path) NUL))"

definition strrchr :: "byte list \<Rightarrow> byte \<Rightarrow> nat option" where
  "strrchr s c = map_option (\<lambda>k. length s - 1 - k) (find_index (\<lambda>b. b = c) (rev s))"

lemma strrchr_less: "strrchr s c = Some k \<Longrightarrow> k < length s"
  by (auto simp: strrchr_def find_index_Some)

lemma strrchr_Some: "strrchr s c = Some k \<Longrightarrow> s ! k = c"
  by (auto simp: strrchr_def find_index_Some rev_nth)

lemma strrchr_None: "strrchr s c = None \<longleftrightarrow> c \<notin> set s"
  by (auto simp: strrchr_def find_index_None)

lemma c_str_strlcpy:
  assumes "0 \<notin> set path" "c_str (strlcpy bsd (Suc n) path) = Some s"
  shows "s = take n path"
proof (cases "bsd \<or> length path \<le> n")
  case True
  have "0 \<notin> set (take n path)" using assms(1) by (auto dest: in_set_takeD)
  moreover have "strlcpy bsd (Suc n) path = take n path @ 0 # replicate (n - length path) 0 \<or>
      strlcpy bsd (Suc n) path = take n path @ [0]"
    using True by (auto simp: strlcpy_def Suc_diff_le)
  ultimately show ?thesis using assms(2) by (auto simp: c_str_append_NUL)
next
  case False
  then have "0 \<notin> set (strlcpy bsd (Suc n) path)"
    using assms(1) by (auto simp: strlcpy_def dest: in_set_takeD)
  then show ?thesis using assms(2) c_str_None [of "strlcpy bsd (Suc n) path"] by simp
qed

text \<open>
  \<open>stat fs path\<close> is \<open>None\<close> when the call fails, otherwise whether \<open>path\<close> is a directory; \<open>mkdir\<close>
  returns the new file system and whether it succeeded.
\<close>

definition mkdir_result :: "'fs \<times> bool \<Rightarrow> int \<times> 'fs" where
  "mkdir_result r = (if snd r then 0 else - 1, fst r)"

function mkdir_p ::
  "bool \<Rightarrow> ('fs \<Rightarrow> byte list \<Rightarrow> bool option) \<Rightarrow> ('fs \<Rightarrow> byte list \<Rightarrow> 'fs \<times> bool) \<Rightarrow> byte list \<Rightarrow> 'fs \<Rightarrow>
   (int \<times> 'fs) option" where
  "mkdir_p bsd stat mkdir path fs =
     (if 0 \<in> set path then None
      else if stat fs path \<noteq> None then Some (0, fs)
      else case c_str (strlcpy bsd 256 path) of
        None \<Rightarrow> None
      | Some s \<Rightarrow>
          (case strrchr s SLASH of
             Some p \<Rightarrow>
               (case mkdir_p bsd stat mkdir (take p s) fs of
                  None \<Rightarrow> None
                | Some (r, fs) \<Rightarrow>
                    if r \<noteq> 0 then Some (- 1, fs) else Some (mkdir_result (mkdir fs path)))
           | None \<Rightarrow> Some (mkdir_result (mkdir fs path))))"
  by pat_completeness auto

text \<open>A path argument is a C string without its NUL, which the recursion keeps and shortens.\<close>

termination
proof (relation "measure (\<lambda>(bsd, stat, mkdir, path, fs). length path)", goal_cases)
  case (2 bsd stat mkdir path fs s p)
  have "c_str (strlcpy bsd (Suc 255) path) = Some s" using 2(3) by simp
  then have "length s \<le> length path" using c_str_strlcpy 2(1) by fastforce
  then show ?case using strrchr_less [OF 2(4)] by simp
qed simp

declare mkdir_p.simps [simp del]

section \<open>opts\_sanity\_check\_d\<close>

text \<open>\<open>dirname\<close> of POSIX: strip trailing slashes, the last component, and the slashes before it.\<close>

definition strip_slashes :: "byte list \<Rightarrow> byte list" where
  "strip_slashes p = rev (dropWhile (\<lambda>b. b = SLASH) (rev p))"

definition dirname :: "byte list \<Rightarrow> byte list" where
  "dirname p =
     (let q = strip_slashes p; d = rev (dropWhile (\<lambda>b. b \<noteq> SLASH) (rev q)); e = strip_slashes d
      in if q = [] then (if p = [] then str ''.'' else str ''/'')
         else if d = [] then str ''.''
         else if e = [] then str ''/'' else e)"

record 'fs filesystem =
  fs_stat :: "'fs \<Rightarrow> byte list \<Rightarrow> bool option"
  fs_mkdir :: "'fs \<Rightarrow> byte list \<Rightarrow> 'fs \<times> bool"
  fs_append :: "'fs \<Rightarrow> byte list \<Rightarrow> 'fs \<times> bool"
  fs_unlink :: "'fs \<Rightarrow> byte list \<Rightarrow> 'fs"

text \<open>
  \<open>fs_append\<close> is \<open>fopen (s, "a")\<close> with the \<open>fclose\<close> of the file it opens. The result is the return
  code with the template left in \<open>*opt_fntemplate\<close>; \<open>now\<close> is \<open>time (NULL)\<close>, cut to \<open>int\<close> by the code.
\<close>

definition opts_sanity_check_d ::
  "bool \<Rightarrow> (byte list \<Rightarrow> int \<Rightarrow> byte list) \<Rightarrow> 'fs filesystem \<Rightarrow> int \<Rightarrow> byte list \<Rightarrow> 'fs \<Rightarrow>
   (int \<times> byte list \<times> 'fs) option" where
  "opts_sanity_check_d bsd strftime sys now orig fs = do {
     s \<leftarrow> expand_dir_template strftime 2048 (orig @ [NUL]) [NUL] [NUL] [NUL]
           (sint (word_of_int now :: u32));
     case fs_stat sys fs s of
       Some isdir \<Rightarrow>
         if \<not> isdir then Some (2, orig, fs)
         else do {
           let s = s @ str ''/tmp-siJNlSdiugQ3iyjaPNW'';
           _ \<leftarrow> (if length s < 2048 then Some () else None);
           let (fs, opened) = fs_append sys fs s;
           if \<not> opened then Some (2, orig, fs)
           else do {
             let fs = fs_unlink sys fs s;
             let opt_fntemplate = orig @ str ''/%Y%m%d/%H/%Y%m%d-%H%M%S-%f-%t-%i.pcap'';
             _ \<leftarrow> (if length opt_fntemplate < length s + 128 then Some () else None);
             _ \<leftarrow> expand_dir_template strftime 2048 (orig @ [NUL]) [NUL] [NUL] [NUL] 0;
             Some (0, opt_fntemplate, fs) } }
     | None \<Rightarrow>
         if PERCENT \<notin> set orig \<or> SLASH \<notin> set s then Some (2, orig, fs)
         else do {
           (r, fs) \<leftarrow> mkdir_p bsd (fs_stat sys) (fs_mkdir sys) (dirname s) fs;
           Some (if r \<noteq> 0 then 2 else 0, orig, fs) } }"

section \<open>What the expansion denotes\<close>

text \<open>The template with its arguments substituted, when nothing is too long.\<close>

fun template_text :: "byte list \<Rightarrow> byte list \<Rightarrow> byte list \<Rightarrow> byte list \<Rightarrow> byte list" where
  "template_text from to callid [] = []"
| "template_text from to callid [c0] = [c0]"
| "template_text from to callid (c0 # c1 # format) =
     (if c0 = PERCENT \<and> c1 = 102 then map sanitize from @ template_text from to callid format
      else if c0 = PERCENT \<and> c1 = 116 then map sanitize to @ template_text from to callid format
      else if c0 = PERCENT \<and> c1 = 105 then map sanitize callid @ template_text from to callid format
      else c0 # template_text from to callid (c1 # format))"

lemma sanitize_table: "list_all (\<lambda>c. c \<noteq> NUL \<and> c \<noteq> PERCENT \<and> c \<noteq> SLASH) asciisan"
  by code_simp

lemma length_asciisan: "length asciisan = 128"
  by code_simp

lemma sanitize_safe: "sanitize b \<noteq> NUL" "sanitize b \<noteq> PERCENT" "sanitize b \<noteq> SLASH"
proof -
  have "unat (b AND 0x7f) < 128"
    using word_and_le1 [of b "0x7f"] by (simp add: word_le_nat_alt)
  then have "sanitize b \<in> set asciisan" by (simp add: sanitize_def length_asciisan)
  then show "sanitize b \<noteq> NUL" "sanitize b \<noteq> PERCENT" "sanitize b \<noteq> SLASH"
    using sanitize_table by (auto simp: list_all_iff)
qed

lemma expand_arg_fits:
  "c_str f = Some a \<Longrightarrow> length out + length a < s1l \<Longrightarrow>
   expand_arg s1l out f = Some (Some (out @ map sanitize a))"
  by (simp add: expand_arg_def)

lemma put_char_fits: "length out < s1l \<Longrightarrow> put_char s1l out c = Some (out @ [c])"
  by (simp add: put_char_def)

lemma expand_loop_text:
  assumes "c_str f = Some from" "c_str t = Some to" "c_str i = Some callid"
    and "length out + length (template_text from to callid format) < s1l"
  shows "expand_loop s1l f t i format out = Some (out @ template_text from to callid format @ [NUL])"
  using assms
proof (induction "from" to callid format arbitrary: out rule: template_text.induct)
  case (3 "from" to callid c0 c1 format)
  note prems = "3.prems" and IH = "3.IH"
  consider "c0 = PERCENT" "c1 = 102" | "c0 = PERCENT" "c1 = 116" | "c0 = PERCENT" "c1 = 105"
    | "\<not> (c0 = PERCENT \<and> c1 = 102)" "\<not> (c0 = PERCENT \<and> c1 = 116)" "\<not> (c0 = PERCENT \<and> c1 = 105)"
    by blast
  then show ?case
  proof cases
    case 1
    then show ?thesis using IH(1) prems by (simp add: expand_arg_fits)
  next
    case 2
    then show ?thesis using IH(2) prems by (simp add: expand_arg_fits)
  next
    case 3
    then show ?thesis using IH(3) prems by (simp add: expand_arg_fits)
  next
    case 4
    have "expand_loop s1l f t i (c1 # format) (out @ [c0]) =
        Some ((out @ [c0]) @ template_text from to callid (c1 # format) @ [NUL])"
      using IH(4) [OF 4 prems(1-3), of "out @ [c0]"] prems(4) 4 by (auto split: if_splits)
    moreover have "put_char s1l out c0 = Some (out @ [c0])"
      using prems(4) 4 by (intro put_char_fits) auto
    ultimately show ?thesis using 4 by (cases "c0 = PERCENT") auto
  qed
qed (simp_all add: put_char_def)

lemma template_text_slashes:
  "filter (\<lambda>c. c = SLASH) (template_text from to callid format) = filter (\<lambda>c. c = SLASH) format"
proof (induction "from" to callid format rule: template_text.induct)
  case (3 "from" to callid c0 c1 format)
  have none: "filter (\<lambda>c. c = SLASH) (map sanitize xs) = []" for xs
    by (simp add: filter_map filter_empty_conv sanitize_safe)
  show ?case using 3 by (auto simp: none)
qed simp_all

lemma template_text_no_NUL:
  "NUL \<notin> set format \<Longrightarrow> NUL \<notin> set (template_text from to callid format)"
proof (induction "from" to callid format rule: template_text.induct)
  case (3 "from" to callid c0 c1 format)
  then show ?case by (auto simp: sanitize_safe dest: sym)
qed auto

text \<open>
  C22: when the substituted text fits the heap buffer (256 bytes more than the template),
  \<open>expand_dir_template\<close> hands \<open>strftime\<close> exactly the template with \<open>%f\<close>, \<open>%t\<close> and \<open>%i\<close> replaced by
  the sanitised caller, callee and Call-ID; and that text has the same slashes as the template, so
  no header of a packet can change the directory of a file, and no NUL.
\<close>

theorem expand_dir_template_text:
  assumes "c_str f = Some from" "c_str t = Some to" "c_str i = Some callid" "NUL \<notin> set fmt"
    and "length (template_text from to callid fmt) < length fmt + 256"
    and "length (strftime (template_text from to callid fmt) time) < maxsize"
  shows "expand_dir_template strftime maxsize (fmt @ [NUL]) f t i time =
      Some (strftime (template_text from to callid fmt) time) \<and>
    filter (\<lambda>c. c = SLASH) (template_text from to callid fmt) = filter (\<lambda>c. c = SLASH) fmt \<and>
    NUL \<notin> set (template_text from to callid fmt)"
  using assms expand_loop_text [OF assms(1-3), of "[]" fmt] template_text_no_NUL
  by (simp add: expand_dir_template_def c_str_append_NUL template_text_slashes Let_def)

theorem expand_dir_template_text_witness:
  "template_text (str ''a/../b'') (str ''%H'') (str ''1@h'') (str ''/d/%f-%t-%i'') = str ''/d/a_.._b-_H-1@h'' \<and>
   expand_dir_template (\<lambda>f t. f) 1024 (str ''/d/%f-%t-%i'' @ [NUL]) (str ''a/../b'' @ [NUL])
     (str ''%H'' @ [NUL]) (str ''1@h'' @ [NUL]) 0 =
   Some (template_text (str ''a/../b'') (str ''%H'') (str ''1@h'') (str ''/d/%f-%t-%i''))"
proof -
  have expanded: "template_text (str ''a/../b'') (str ''%H'') (str ''1@h'') (str ''/d/%f-%t-%i'') =
      str ''/d/a_.._b-_H-1@h''" by code_simp
  have args: "c_str (str ''a/../b'' @ [NUL]) = Some (str ''a/../b'')"
    "c_str (str ''%H'' @ [NUL]) = Some (str ''%H'')" "c_str (str ''1@h'' @ [NUL]) = Some (str ''1@h'')"
    by (simp_all add: c_str_append_NUL)
  show ?thesis
    using expand_dir_template_text [OF args, of "str ''/d/%f-%t-%i''" "\<lambda>f t. f" 0 1024]
    by (simp add: expanded del: str_Cons) simp
qed

lemma expand_loop_plain:
  assumes "PERCENT \<notin> set pre"
  shows "expand_loop s1l f t i (pre @ rest) out =
    (if length out + length pre \<le> s1l then expand_loop s1l f t i rest (out @ pre)
     else if pre = [] then expand_loop s1l f t i rest out else None)"
  using assms
proof (induction pre arbitrary: out)
  case Nil
  then show ?case by simp
next
  case (Cons c pre)
  have step: "expand_loop s1l f t i (c # pre @ rest) out = do {
      out \<leftarrow> put_char s1l out c; expand_loop s1l f t i (pre @ rest) out }"
    using Cons.prems by (cases "pre @ rest") (auto intro!: arg_cong [of _ _ "Option.bind _"])
  show ?case
    using Cons.IH [of "out @ [c]"] Cons.prems by (auto simp: step put_char_def)
qed

text \<open>
  C23: the bound check of \<open>expand_dir_template\<close> leaves a window in which a Call-ID overruns the heap
  buffer. For a template with a single directive \<open>%i\<close>: a Call-ID of up to 257 bytes is substituted;
  one of 258 up to 257 bytes plus the rest of the template overruns the buffer (the literal bytes
  after the directive are written unchecked); a longer one is left as \<open>%i\<close>.
\<close>

theorem callid_template_window:
  assumes "PERCENT \<notin> set pre" "PERCENT \<notin> set post" "NUL \<notin> set callid" "NUL \<notin> set (pre @ post)"
  shows "expand_dir_template (\<lambda>s t. s) maxsize (pre @ str ''%i'' @ post @ [NUL]) f t (callid @ [NUL]) time =
    (if length callid \<le> 257
     then if length pre + length callid + length post < maxsize
          then Some (pre @ map sanitize callid @ post) else None
     else if length callid < 258 + length post then None
     else if length pre + 2 + length post < maxsize then Some (pre @ str ''%i'' @ post) else None)"
proof -
  let ?fmt = "pre @ str ''%i'' @ post"
  let ?s = "length ?fmt + 256"
  have fmt: "c_str (pre @ str ''%i'' @ post @ [NUL]) = Some ?fmt"
    using c_str_append_NUL [of ?fmt "[]"] assms(4) by auto
  have c: "c_str (callid @ [NUL]) = Some callid" using assms(3) by (simp add: c_str_append_NUL)
  have post: "expand_loop s1l f t (callid @ [NUL]) post out =
      (if length out + length post < s1l then Some (out @ post @ [NUL]) else None)" for s1l out
    using expand_loop_plain [OF assms(2), of s1l f t "callid @ [NUL]" "[]" out]
    by (auto simp: put_char_def)
  have lit: "expand_loop s1l f t (callid @ [NUL]) (105 # post) out =
      (if length out + 1 + length post < s1l then Some (out @ 105 # post @ [NUL]) else None)" for s1l out
    using expand_loop_plain [of "105 # post" s1l f t "callid @ [NUL]" "[]" out] assms(2)
    by (auto simp: put_char_def)
  have loop: "expand_loop ?s f t (callid @ [NUL]) ?fmt [] =
    (if length callid < length post + 258
     then if length callid \<le> 257 then Some (pre @ map sanitize callid @ post @ [NUL]) else None
     else Some (pre @ str ''%i'' @ post @ [NUL]))"
    using expand_loop_plain [OF assms(1), of ?s f t "callid @ [NUL]" "str ''%i'' @ post" "[]"]
    by (auto simp: expand_arg_def put_char_def c post lit)
  have nul: "NUL \<notin> set (pre @ map sanitize callid @ post)" "NUL \<notin> set (pre @ str ''%i'' @ post)"
    using assms(4) by (auto simp: sanitize_safe dest: sym)
  have "c_str (pre @ map sanitize callid @ post @ [NUL]) = Some (pre @ map sanitize callid @ post)"
    "c_str (pre @ PERCENT # 105 # post @ [NUL]) = Some (pre @ PERCENT # 105 # post)"
    using c_str_append_NUL [OF nul(1), of "[]"] c_str_append_NUL [OF nul(2), of "[]"] by simp_all
  note strings = this
  show ?thesis
    unfolding expand_dir_template_def fmt Let_def by (auto simp: loop [simplified] strings)
qed

theorem callid_template_window_witness:
  "expand_dir_template (\<lambda>s t. s) 1024 ([] @ str ''%i'' @ str ''.pcap'' @ [NUL]) [] []
     (replicate 260 65 @ [NUL]) 0 = None"
  using callid_template_window [of "[]" "str ''.pcap''" "replicate 260 65" 1024 "[]" "[]" 0] by simp

section \<open>What mkdir\_p achieves\<close>

text \<open>
  The behaviour of the two calls \<open>mkdir_p\<close> relies on. \<open>mkdir\<close> creates the directory, empty, when it
  reports success, and removes nothing; and it succeeds on a missing path whose parent exists,
  where a path without a slash has the current directory as its parent.
\<close>

definition good_name :: "byte list \<Rightarrow> bool" where
  "good_name n \<longleftrightarrow> n \<noteq> [] \<and> SLASH \<notin> set n \<and> n \<noteq> str ''.'' \<and> n \<noteq> str ''..''"

definition mkdir_law :: "('fs \<Rightarrow> byte list \<Rightarrow> bool option) \<Rightarrow> ('fs \<Rightarrow> byte list \<Rightarrow> 'fs \<times> bool) \<Rightarrow> bool" where
  "mkdir_law stat mkdir \<longleftrightarrow>
     (\<forall>fs p. (snd (mkdir fs p) \<longrightarrow> stat (fst (mkdir fs p)) p \<noteq> None \<and>
         (\<forall>n. good_name n \<longrightarrow> stat (fst (mkdir fs p)) (p @ SLASH # n) = None)) \<and>
       (\<forall>q. stat fs q \<noteq> None \<longrightarrow> stat (fst (mkdir fs p)) q \<noteq> None))"

definition mkdir_parent_law :: "('fs \<Rightarrow> byte list \<Rightarrow> bool option) \<Rightarrow> ('fs \<Rightarrow> byte list \<Rightarrow> 'fs \<times> bool) \<Rightarrow> bool" where
  "mkdir_parent_law stat mkdir \<longleftrightarrow>
     (\<forall>fs p. p \<noteq> [] \<and> stat fs p = None \<and>
        (case strrchr p SLASH of None \<Rightarrow> True | Some k \<Rightarrow> stat fs (take k p) \<noteq> None) \<longrightarrow>
        snd (mkdir fs p))"

text \<open>
  A file system of directories only: the list of its paths. A path is there when all paths it is
  below of are, too.
\<close>

definition dirs_has :: "byte list list \<Rightarrow> byte list \<Rightarrow> bool" where
  "dirs_has fs p \<longleftrightarrow> list_all (\<lambda>k. p ! k = SLASH \<longrightarrow> take k p \<in> set fs) [0..<length p]"

definition dirs_stat :: "byte list list \<Rightarrow> byte list \<Rightarrow> bool option" where
  "dirs_stat fs p = (if p \<noteq> [] \<and> p \<in> set fs \<and> dirs_has fs p then Some True else None)"

definition dirs_mkdir :: "byte list list \<Rightarrow> byte list \<Rightarrow> byte list list \<times> bool" where
  "dirs_mkdir fs p =
     (if p \<noteq> [] \<and> dirs_stat fs p = None \<and> dirs_has fs p
      then (p # filter (\<lambda>q. take (Suc (length p)) q \<noteq> p @ [SLASH]) fs, True) else (fs, False))"

lemma dirs_hasD: "dirs_has fs p \<Longrightarrow> k < length p \<Longrightarrow> p ! k = SLASH \<Longrightarrow> take k p \<in> set fs"
  by (simp add: dirs_has_def list_all_iff)

lemma dirs_hasI: "(\<And>k. k < length p \<Longrightarrow> p ! k = SLASH \<Longrightarrow> take k p \<in> set fs) \<Longrightarrow> dirs_has fs p"
  by (simp add: dirs_has_def list_all_iff)

lemma dirs_has_below:
  assumes "dirs_has fs q" "take (Suc (length p)) q = p @ [SLASH]"
  shows "p \<in> set fs \<and> dirs_has fs p"
proof -
  have len: "length p < length q"
    using arg_cong [OF assms(2), of length] by (auto simp: min_def split: if_splits)
  have p: "p = take (length p) q" "q ! length p = SLASH"
    using arg_cong [OF assms(2), of "take (length p)"] arg_cong [OF assms(2), of "\<lambda>l. l ! length p"] len
    by (simp_all add: min_def)
  have "p \<in> set fs" using dirs_hasD [OF assms(1) len p(2)] p(1) by simp
  moreover have "dirs_has fs p"
  proof (rule dirs_hasI)
    fix k assume "k < length p" "p ! k = SLASH"
    then have "take k q \<in> set fs" using dirs_hasD [OF assms(1), of k] len p(1) by (metis nth_take order.strict_trans)
    then show "take k p \<in> set fs" using \<open>k < length p\<close> by (subst p(1)) (simp add: min_def)
  qed
  ultimately show ?thesis by blast
qed


lemma dirs_mkdir_stat:
  assumes "dirs_stat fs p = None" "dirs_has fs p" "dirs_has fs q" "p \<noteq> []"
  shows "dirs_has (p # filter (\<lambda>q. take (Suc (length p)) q \<noteq> p @ [SLASH]) fs) q"
proof (rule dirs_hasI)
  fix k assume k: "k < length q" "q ! k = SLASH"
  have "take (Suc (length p)) (take k q) \<noteq> p @ [SLASH]"
  proof
    assume eq: "take (Suc (length p)) (take k q) = p @ [SLASH]"
    have "Suc (length p) \<le> k" using arg_cong [OF eq, of length] k(1) by simp
    with eq have "take (Suc (length p)) q = p @ [SLASH]" by (simp add: min_def)
    with dirs_has_below [OF assms(3)] assms(1,4) show False by (simp add: dirs_stat_def split: if_splits)
  qed
  then show "take k q \<in> set (p # filter (\<lambda>q. take (Suc (length p)) q \<noteq> p @ [SLASH]) fs)"
    using dirs_hasD [OF assms(3) k] by simp
qed

lemma dirs_law: "mkdir_law dirs_stat dirs_mkdir"
proof -
  have keep: "dirs_stat (fst (dirs_mkdir fs p)) q \<noteq> None" if "dirs_stat fs q \<noteq> None" for fs p q
    using that dirs_mkdir_stat [of fs p q] dirs_has_below [of fs q p]
    by (auto simp: dirs_mkdir_def dirs_stat_def split: if_splits)
  have new: "dirs_stat (fst (dirs_mkdir fs p)) p \<noteq> None" if "snd (dirs_mkdir fs p)" for fs p
    using that dirs_mkdir_stat [of fs p p] by (auto simp: dirs_mkdir_def dirs_stat_def split: if_splits)
  have empty: "dirs_stat (fst (dirs_mkdir fs p)) (p @ SLASH # n) = None" if "snd (dirs_mkdir fs p)" for fs p n
    using that by (auto simp: dirs_mkdir_def dirs_stat_def split: if_splits)
  from keep new empty show ?thesis unfolding mkdir_law_def by blast
qed

lemma strrchr_last: "strrchr s c = Some k \<Longrightarrow> k < j \<Longrightarrow> j < length s \<Longrightarrow> s ! j \<noteq> c"
proof -
  assume "strrchr s c = Some k" "k < j" "j < length s"
  then obtain i where "find_index (\<lambda>b. b = c) (rev s) = Some i" "k = length s - 1 - i"
    by (auto simp: strrchr_def)
  with \<open>k < j\<close> \<open>j < length s\<close> have "rev s ! (length s - 1 - j) \<noteq> c"
    by (auto simp: find_index_Some)
  with \<open>j < length s\<close> show ?thesis by (simp add: rev_nth)
qed

lemma dirs_parent_law: "mkdir_parent_law dirs_stat dirs_mkdir"
proof -
  have "dirs_has fs p"
    if "case strrchr p SLASH of None \<Rightarrow> True | Some k \<Rightarrow> dirs_stat fs (take k p) \<noteq> None" for fs p
  proof (rule dirs_hasI)
    fix j assume j: "j < length p" "p ! j = SLASH"
    then have "SLASH \<in> set p" by (metis nth_mem)
    then obtain k where k: "strrchr p SLASH = Some k" using strrchr_None [of p SLASH] by auto
    with that have st: "take k p \<in> set fs" "dirs_has fs (take k p)"
      by (auto simp: dirs_stat_def split: if_splits)
    have "j \<le> k" using strrchr_last [OF k, of j] j by fastforce
    then show "take j p \<in> set fs"
      using st dirs_hasD [OF st(2), of j] j strrchr_less [OF k] by (cases "j = k") (auto simp: min_def)
  qed
  then show ?thesis
    unfolding mkdir_parent_law_def dirs_mkdir_def by auto
qed

lemmas dirs_laws = dirs_law dirs_parent_law

lemma mkdir_law_empty:
  "mkdir_law stat mkdir \<Longrightarrow> snd (mkdir fs p) \<Longrightarrow> good_name n \<Longrightarrow> stat (fst (mkdir fs p)) (p @ SLASH # n) = None"
  by (simp add: mkdir_law_def)

lemma mkdir_result_0:
  "mkdir_law stat mkdir \<Longrightarrow> mkdir_result (mkdir fs p) = (0, fs') \<Longrightarrow>
   stat fs' p \<noteq> None \<and> snd (mkdir fs p) \<and> fs' = fst (mkdir fs p)"
  by (auto simp: mkdir_result_def mkdir_law_def split: if_splits)

text \<open>When \<open>mkdir_p\<close> returns 0, the path existed before or was created by its last \<open>mkdir\<close>.\<close>

lemma mkdir_p_0:
  assumes "mkdir_law stat mkdir" "mkdir_p bsd stat mkdir path fs = Some (0, fs')"
  shows "stat fs' path \<noteq> None \<and> (fs' = fs \<or> (\<exists>fs1. snd (mkdir fs1 path) \<and> fs' = fst (mkdir fs1 path)))"
  using assms(2) mkdir_result_0 [OF assms(1)]
  by (subst (asm) mkdir_p.simps) (fastforce split: if_splits option.splits)

text \<open>
  When \<open>mkdir_p\<close> returns 0, the path exists afterwards.
\<close>

theorem mkdir_p_creates:
  assumes "mkdir_law stat mkdir" "mkdir_p bsd stat mkdir path fs = Some (0, fs')"
  shows "stat fs' path \<noteq> None"
  using mkdir_p_0 [OF assms] by blast

theorem mkdir_p_creates_witness:
  "dirs_stat [str ''a/b'', str ''a''] (str ''a/b'') \<noteq> None"
proof (rule mkdir_p_creates [OF dirs_laws(1)])
  show "mkdir_p True dirs_stat dirs_mkdir (str ''a/b'') [str ''a''] = Some (0, [str ''a/b'', str ''a''])"
    by code_simp
qed

lemma strlcpy_short:
  assumes "0 \<notin> set path" "length path \<le> 255"
  shows "c_str (strlcpy bsd 256 path) = Some path"
proof -
  have "strlcpy bsd 256 path = path @ NUL # replicate (255 - length path) NUL \<or>
      strlcpy bsd 256 path = path @ [NUL]"
    using assms(2) by (auto simp: strlcpy_def replicate_Suc [symmetric] Suc_diff_le simp del: replicate_Suc)
  then show ?thesis using assms(1) by (auto simp: c_str_append_NUL)
qed

text \<open>
  A relative path whose components are names: the part before each slash, and the whole path, ends
  in one.
\<close>

definition last_name :: "byte list \<Rightarrow> byte list" where
  "last_name p = (case strrchr p SLASH of None \<Rightarrow> p | Some k \<Rightarrow> drop (Suc k) p)"

definition plain_relative :: "byte list \<Rightarrow> bool" where
  "plain_relative p \<longleftrightarrow>
     list_all (\<lambda>k. k = length p \<or> p ! k = SLASH \<longrightarrow> good_name (last_name (take k p))) [0..<Suc (length p)]"

lemma plain_relative_iff:
  "plain_relative p \<longleftrightarrow> (\<forall>k\<le>length p. k = length p \<or> p ! k = SLASH \<longrightarrow> good_name (last_name (take k p)))"
proof -
  have "k \<in> set [0..<Suc n] \<longleftrightarrow> k \<le> n" for k n :: nat by auto
  then show ?thesis by (simp only: plain_relative_def list_all_iff Ball_def)
qed

lemma plain_relativeD:
  "plain_relative p \<Longrightarrow> k \<le> length p \<Longrightarrow> k = length p \<or> p ! k = SLASH \<Longrightarrow> good_name (last_name (take k p))"
  by (simp only: plain_relative_iff)

lemma plain_relative_take:
  assumes "plain_relative p" "k < length p" "p ! k = SLASH"
  shows "plain_relative (take k p)"
  unfolding plain_relative_iff
proof (intro allI impI)
  fix j assume j: "j \<le> length (take k p)" "j = length (take k p) \<or> take k p ! j = SLASH"
  then have "j \<le> k" "j = k \<or> p ! j = SLASH" using assms(2) by (auto simp: le_less)
  then show "good_name (last_name (take j (take k p)))"
    using plain_relativeD [OF assms(1), of j] assms(2,3) by (auto simp: min_def)
qed

lemma plain_relative_name: "plain_relative p \<Longrightarrow> good_name (last_name p)"
  using plain_relativeD [of p "length p"] by simp

text \<open>After the directory of a path has been made, a path that did not exist does not yet.\<close>

lemma mkdir_p_parent:
  assumes "mkdir_law stat mkdir" "mkdir_p bsd stat mkdir dir fs = Some (0, fs1)"
    and "good_name name" "stat fs (dir @ SLASH # name) = None"
  shows "stat fs1 dir \<noteq> None" "stat fs1 (dir @ SLASH # name) = None"
proof -
  show "stat fs1 dir \<noteq> None" using mkdir_p_0 [OF assms(1,2)] by blast
  from mkdir_p_0 [OF assms(1,2)] consider "fs1 = fs" | fs2 where "snd (mkdir fs2 dir)" "fs1 = fst (mkdir fs2 dir)"
    by blast
  then show "stat fs1 (dir @ SLASH # name) = None"
    by cases (use assms(4) mkdir_law_empty [OF assms(1) _ assms(3)] in auto)
qed

lemma mkdir_p_relative_succeeds:
  assumes "mkdir_law stat mkdir" "mkdir_parent_law stat mkdir"
    and "NUL \<notin> set path" "length path \<le> 255" "plain_relative path"
  shows "\<exists>fs'. mkdir_p bsd stat mkdir path fs = Some (0, fs')"
  using assms(3-5)
proof (induction "length path" arbitrary: path rule: less_induct)
  case less
  note name = plain_relative_name [OF less.prems(3)]
  note copy = strlcpy_short [OF less.prems(1,2), of bsd]
  consider (exists) "stat fs path \<noteq> None" | (single) "stat fs path = None" "strrchr path SLASH = None"
    | (nested) k where "stat fs path = None" "strrchr path SLASH = Some k"
    by blast
  then show ?case
  proof cases
    case exists
    then show ?thesis using less.prems(1) by (simp add: mkdir_p.simps [of bsd stat mkdir path])
  next
    case single
    with name have "path \<noteq> []" by (auto simp: last_name_def good_name_def)
    with single assms(2) have "snd (mkdir fs path)" by (simp add: mkdir_parent_law_def)
    with single less.prems(1) show ?thesis
      by (simp add: mkdir_p.simps [of bsd stat mkdir path] copy mkdir_result_def)
  next
    case (nested k)
    have k: "k < length path" "path ! k = SLASH"
      using strrchr_less [OF nested(2)] strrchr_Some [OF nested(2)] by auto
    from less.prems k plain_relative_take obtain fs1 where
      rec: "mkdir_p bsd stat mkdir (take k path) fs = Some (0, fs1)"
      using less.hyps [of "take k path"] by (auto dest: in_set_takeD)
    have split: "take k path @ SLASH # last_name path = path"
      using nested(2) k id_take_nth_drop [OF k(1)] by (simp add: last_name_def)
    note fs1 = mkdir_p_parent [OF assms(1) rec name, unfolded split, OF nested(1)]
    with assms(2) nested k have "snd (mkdir fs1 path)"
      unfolding mkdir_parent_law_def by (cases path) auto
    with rec nested less.prems(1) show ?thesis
      by (simp add: mkdir_p.simps [of bsd stat mkdir path] copy mkdir_result_def)
  qed
qed




text \<open>
  C25: \<open>mkdir_p\<close> cannot create a directory in the root: on \<open>/name\<close> it cuts the path down to the
  empty string, for which \<open>stat\<close> and \<open>mkdir\<close> fail, and reports failure without trying.
\<close>

theorem mkdir_p_under_root:
  assumes "\<And>fs. stat fs [] = None" "\<And>fs. mkdir fs [] = (fs, False)"
    and "NUL \<notin> set name" "SLASH \<notin> set name" "length name \<le> 254" "stat fs (SLASH # name) = None"
  shows "mkdir_p bsd stat mkdir (SLASH # name) fs = Some (- 1, fs)"
proof -
  have copy: "c_str (strlcpy bsd 256 (SLASH # name)) = Some (SLASH # name)"
    using assms(3,5) by (intro strlcpy_short) auto
  have copy0: "c_str (strlcpy bsd 256 []) = Some []" by (intro strlcpy_short) auto
  have "strrchr (SLASH # name) SLASH = Some 0"
  proof -
    from strrchr_None [of "SLASH # name" SLASH] obtain k where k: "strrchr (SLASH # name) SLASH = Some k"
      by auto
    from strrchr_Some [OF k] strrchr_less [OF k] assms(4) have "k = 0"
      by (cases k) (auto dest: nth_mem)
    with k show ?thesis by simp
  qed
  then show ?thesis
    using assms copy0 strrchr_None [of "[]" SLASH]
    by (simp add: mkdir_p.simps [of bsd stat mkdir "SLASH # name"] copy
        mkdir_p.simps [of bsd stat mkdir "[]"] mkdir_result_def)
qed

theorem mkdir_p_under_root_witness:
  "mkdir_p True dirs_stat dirs_mkdir (SLASH # str ''data'') [] = Some (- 1, [])"
  by (rule mkdir_p_under_root) (simp_all add: dirs_stat_def dirs_mkdir_def)

text \<open>
  C26: a \<open>-d\<close> argument is accepted in two cases only: it expands to an existing directory in which a
  file can be created, and the default file name template is appended to it; or it expands to
  something that does not exist, contains a directive and a slash, and then its directory exists
  when the function returns.
\<close>

theorem opts_sanity_check_d_accepts:
  assumes "mkdir_law (fs_stat sys) (fs_mkdir sys)"
    and "opts_sanity_check_d bsd strftime sys now orig fs = Some (0, t, fs')"
    and "expand_dir_template strftime 2048 (orig @ [NUL]) [NUL] [NUL] [NUL] (sint (word_of_int now :: u32)) = Some s"
  shows "fs_stat sys fs s = Some True \<and> snd (fs_append sys fs (s @ str ''/tmp-siJNlSdiugQ3iyjaPNW'')) \<and>
      t = orig @ str ''/%Y%m%d/%H/%Y%m%d-%H%M%S-%f-%t-%i.pcap'' \<or>
    fs_stat sys fs s = None \<and> t = orig \<and> PERCENT \<in> set orig \<and> SLASH \<in> set s \<and>
      fs_stat sys fs' (dirname s) \<noteq> None"
proof (cases "fs_stat sys fs s")
  case None
  with assms(2,3) obtain r where "mkdir_p bsd (fs_stat sys) (fs_mkdir sys) (dirname s) fs = Some (r, fs')"
    "r = 0" "t = orig" "PERCENT \<in> set orig" "SLASH \<in> set s"
    unfolding opts_sanity_check_d_def by (auto elim!: bind_SomeE split: if_splits)
  with None mkdir_p_0 [OF assms(1), of bsd "dirname s" fs fs'] show ?thesis by simp
next
  case (Some isdir)
  with assms(2,3) show ?thesis
    unfolding opts_sanity_check_d_def Let_def
    by (auto elim!: bind_SomeE split: if_splits prod.splits simp del: str_Cons)
qed

definition dirs_filesystem :: "byte list list filesystem" where
  "dirs_filesystem = \<lparr>fs_stat = dirs_stat, fs_mkdir = dirs_mkdir,
     fs_append = \<lambda>fs p. (fs, dirname p \<in> set fs), fs_unlink = \<lambda>fs p. fs\<rparr>"

theorem opts_sanity_check_d_accepts_witness:
  "dirs_stat [str ''out''] (str ''out'') = Some True \<and>
   snd (fs_append dirs_filesystem [str ''out''] (str ''out'' @ str ''/tmp-siJNlSdiugQ3iyjaPNW'')) \<and>
   str ''out/%Y%m%d/%H/%Y%m%d-%H%M%S-%f-%t-%i.pcap'' =
     str ''out'' @ str ''/%Y%m%d/%H/%Y%m%d-%H%M%S-%f-%t-%i.pcap''"
proof -
  have law: "mkdir_law (fs_stat dirs_filesystem) (fs_mkdir dirs_filesystem)"
    by (simp add: dirs_filesystem_def dirs_laws)
  have run: "opts_sanity_check_d True (\<lambda>f t. f) dirs_filesystem 0 (str ''out'') [str ''out''] =
      Some (0, str ''out/%Y%m%d/%H/%Y%m%d-%H%M%S-%f-%t-%i.pcap'', [str ''out''])"
    "expand_dir_template (\<lambda>f t. f) 2048 (str ''out'' @ [NUL]) [NUL] [NUL] [NUL]
      (sint (word_of_int 0 :: u32)) = Some (str ''out'')"
    by code_simp+
  have "dirs_stat [str ''out''] (str ''out'') = Some True" by code_simp
  then show ?thesis
    using opts_sanity_check_d_accepts [OF law run]
    by (simp add: dirs_filesystem_def del: str_Cons)
qed

end
