(* ===== verification/Calltable.thy ===== *)
theory Calltable
  imports CStrings
begin

text \<open>
  \<open>calltable.h\<close> and \<open>calltable.cpp\<close> without \<open>USE_CALLTABLE_CACHE\<close>: the table of calls, the RTP flows
  each call has learnt, the map of IP fragments, and expiry.

  A dumper (\<open>pcap_dumper_t *\<close>) is a number, NULL is \<open>None\<close>. What the operations do outside the table
  (flushing, closing and unlinking files, firing triggers) is the list of effects they return, in
  the order of the calls. Arrays of the structure are lists of the declared length; lengths and
  \<open>ip_n\<close> are natural numbers, times are integers. Messages printed on the way are not modelled.
\<close>

section \<open>Data\<close>

type_synonym dumper = nat

datatype trigger_kind = Trigger_open | Trigger_close

text \<open>
  A trigger is fired with pointers to the file name, the caller, the callee, the Call-ID (each the
  memory from the pointer on) and the time of the first packet.
\<close>

datatype effect =
  Dump dumper
| Dump_flush dumper
| Dump_close dumper
| Unlink "byte list"
| Fire trigger_kind "byte list" "byte list" "byte list" "byte list" int
| Dump_open "byte list" "dumper option"

definition calltable_max_ip_per_call :: nat where
  "calltable_max_ip_per_call = 4"

record calltable_element =
  is_used :: byte
  had_bye :: byte
  had_t38 :: byte
  rtpmap_event :: byte
  caller :: "byte list"
  callee :: "byte list"
  call_id :: "byte list"
  call_id_len :: nat
  ip :: "u32 list"
  port :: "u16 list"
  ssrc :: "u32 list"
  ip_n :: nat
  first_packet_time :: int
  last_packet_time :: int
  packets :: u64
  f_pcap :: "dumper option"
  fn_pcap :: "byte list"

text \<open>\<open>calltable_element ()\<close>, and the element after the \<open>memset\<close> of \<open>do_cleanup\<close>.\<close>

definition zero_element :: calltable_element where
  "zero_element =
     \<lparr>is_used = 0, had_bye = 0, had_t38 = 0, rtpmap_event = 0,
      caller = replicate 16 0, callee = replicate 16 0, call_id = replicate 32 0, call_id_len = 0,
      ip = replicate calltable_max_ip_per_call 0, port = replicate calltable_max_ip_per_call 0,
      ssrc = replicate calltable_max_ip_per_call 0, ip_n = 0,
      first_packet_time = 0, last_packet_time = 0, packets = 0,
      f_pcap = None, fn_pcap = replicate 128 0\<rparr>"

text \<open>
  The memory from the \<open>caller\<close>, \<open>callee\<close> and \<open>call_id\<close> arrays on: they follow one another, and the
  four bytes of padding before \<open>call_id_len\<close> are zero. A name that fills its array runs on into the
  next one.
\<close>

definition call_id_mem :: "calltable_element \<Rightarrow> byte list" where
  "call_id_mem e = call_id e @ replicate 4 NUL"

definition callee_mem :: "calltable_element \<Rightarrow> byte list" where
  "callee_mem e = callee e @ call_id_mem e"

definition caller_mem :: "calltable_element \<Rightarrow> byte list" where
  "caller_mem e = caller e @ callee_mem e"

datatype addr_addr_id = Addr_addr_id (aai_saddr: u32) (aai_daddr: u32) (aai_id: u16)

text \<open>\<open>operator <\<close> on the keys of the fragment map.\<close>

definition addr_addr_id_less :: "addr_addr_id \<Rightarrow> addr_addr_id \<Rightarrow> bool" where
  "addr_addr_id_less a b \<longleftrightarrow>
     aai_saddr a < aai_saddr b \<or>
     aai_saddr a = aai_saddr b \<and> aai_daddr a < aai_daddr b \<or>
     aai_saddr a = aai_saddr b \<and> aai_daddr a = aai_daddr b \<and> aai_id a < aai_id b"

instantiation addr_addr_id :: linorder
begin

definition less_addr_addr_id :: "addr_addr_id \<Rightarrow> addr_addr_id \<Rightarrow> bool" where
  "less_addr_addr_id = addr_addr_id_less"

definition less_eq_addr_addr_id :: "addr_addr_id \<Rightarrow> addr_addr_id \<Rightarrow> bool" where
  "less_eq_addr_addr_id a b \<longleftrightarrow> \<not> b < (a :: addr_addr_id)"

instance
proof
  fix x y z :: addr_addr_id
  show "x < y \<longleftrightarrow> x \<le> y \<and> \<not> y \<le> x"
    by (auto simp: less_addr_addr_id_def addr_addr_id_less_def less_eq_addr_addr_id_def)
  show "x \<le> x" by (simp add: less_addr_addr_id_def addr_addr_id_less_def less_eq_addr_addr_id_def)
  show "x \<le> z" if "x \<le> y" "y \<le> z"
    using that by (auto simp: less_addr_addr_id_def addr_addr_id_less_def less_eq_addr_addr_id_def)
  show "x = y" if "x \<le> y" "y \<le> x"
    using that by (cases x; cases y) (auto simp: less_addr_addr_id_def addr_addr_id_less_def less_eq_addr_addr_id_def)
  show "x \<le> y \<or> y \<le> x"
    by (auto simp: less_addr_addr_id_def addr_addr_id_less_def less_eq_addr_addr_id_def)
qed

end

text \<open>A \<open>std::map\<close> under that order, as the partial function it stores.\<close>

type_synonym frag_map = "addr_addr_id \<rightharpoonup> dumper option"

record calltable =
  table :: "calltable_element list"
  ipfrags :: frag_map
  erase_non_t38 :: bool
  opt_absolute_timeout :: int
  global_last_packet_time :: int

section \<open>Operations\<close>

definition INT32_MAX :: int where
  "INT32_MAX = 2147483647"

definition new_calltable :: calltable where
  "new_calltable = \<lparr>table = [], ipfrags = Map.empty, erase_non_t38 = False,
     opt_absolute_timeout = INT32_MAX, global_last_packet_time = 0\<rparr>"

text \<open>\<open>cid\<close>, \<open>from\<close> and \<open>to\<close> are the memory the three pointers point to.\<close>

definition calltable_add ::
  "calltable \<Rightarrow> byte list \<Rightarrow> nat \<Rightarrow> byte list \<Rightarrow> byte list \<Rightarrow> int \<Rightarrow>
   (calltable \<times> nat \<times> effect list) option" where
  "calltable_add ct cid cid_len from to time = do {
     let idx = (case find_index (\<lambda>e. is_used e = 0) (table ct) of
                  Some i \<Rightarrow> i | None \<Rightarrow> length (table ct));
     let tab = (if idx = length (table ct) then table ct @ [zero_element] else table ct);
     let e = tab ! idx;
     bytes \<leftarrow> region cid 0 (min cid_len 32);
     id \<leftarrow> put_bytes (call_id e) bytes;
     from \<leftarrow> region from 0 16;
     to \<leftarrow> region to 0 16;
     let e = e\<lparr>is_used := 1, rtpmap_event := 101, had_t38 := 0, had_bye := 0,
               call_id := id, call_id_len := cid_len, caller := from, callee := to,
               ip_n := 0, f_pcap := None, first_packet_time := time, last_packet_time := time\<rparr>;
     Some (ct\<lparr>table := tab[idx := e], global_last_packet_time := time\<rparr>, idx,
           [Fire Trigger_open (fn_pcap e) (caller_mem e) (callee_mem e) (call_id_mem e) time]) }"

definition call_id_match :: "byte list \<Rightarrow> nat \<Rightarrow> calltable_element \<Rightarrow> bool" where
  "call_id_match cid cid_len e \<longleftrightarrow>
     is_used e \<noteq> 0 \<and> call_id_len e = cid_len \<and>
     take (min cid_len 32) (call_id e) = take (min cid_len 32) cid"

definition find_by_call_id :: "calltable \<Rightarrow> byte list \<Rightarrow> nat \<Rightarrow> nat option" where
  "find_by_call_id ct cid cid_len = find_index (call_id_match cid cid_len) (table ct)"

text \<open>The result is the returned code with the updated element.\<close>

definition add_ip_port :: "calltable_element \<Rightarrow> u32 \<Rightarrow> u16 \<Rightarrow> int \<times> calltable_element" where
  "add_ip_port ce addr p =
     (if ip_n ce \<ge> calltable_max_ip_per_call then (- 1, ce)
      else if \<exists>i\<in>{0..<ip_n ce}. ip ce ! i = addr \<and> port ce ! i = p then (0, ce)
      else (0, ce\<lparr>ip := (ip ce)[ip_n ce := addr], port := (port ce)[ip_n ce := p],
                  ip_n := ip_n ce + 1\<rparr>))"

text \<open>The two nested loops of \<open>find_ip_port_ssrc\<close>: over the flows of an element, over the table.\<close>

definition find_rtp :: "u32 \<Rightarrow> u16 \<Rightarrow> u32 \<Rightarrow> calltable_element \<Rightarrow> nat option" where
  "find_rtp addr p s e =
     find_index (\<lambda>i. port e ! i = p \<and> ip e ! i = addr \<and> (had_bye e = 0 \<or> ssrc e ! i = s))
       [0..<min calltable_max_ip_per_call (ip_n e)]"

fun find_leg :: "u32 \<Rightarrow> u16 \<Rightarrow> u32 \<Rightarrow> calltable_element list \<Rightarrow> (nat \<times> nat) option" where
  "find_leg addr p s [] = None"
| "find_leg addr p s (e # es) =
     (case find_rtp addr p s e of
        Some i_rtp \<Rightarrow> Some (0, i_rtp)
      | None \<Rightarrow> map_option (\<lambda>(i_leg, i_rtp). (Suc i_leg, i_rtp)) (find_leg addr p s es))"

definition find_ip_port_ssrc ::
  "calltable \<Rightarrow> u32 \<Rightarrow> u16 \<Rightarrow> u32 \<Rightarrow> calltable \<times> (nat \<times> nat) option" where
  "find_ip_port_ssrc ct addr p s =
     (case find_leg addr p s (table ct) of
        None \<Rightarrow> (ct, None)
      | Some (i_leg, i_rtp) \<Rightarrow>
          let e = table ct ! i_leg
          in (ct\<lparr>table := (table ct)[i_leg := e\<lparr>ssrc := (ssrc e)[i_rtp := s]\<rparr>]\<rparr>, Some (i_leg, i_rtp)))"

definition expired :: "calltable \<Rightarrow> int \<Rightarrow> calltable_element \<Rightarrow> bool" where
  "expired ct currtime e \<longleftrightarrow>
     is_used e \<noteq> 0 \<and> (currtime - last_packet_time e > 300 \<or>
                       currtime - first_packet_time e > opt_absolute_timeout ct)"

text \<open>The body of the loop of \<open>do_cleanup\<close>. The file name is a C string of the array.\<close>

definition cleanup_element :: "calltable \<Rightarrow> int \<Rightarrow> calltable_element \<Rightarrow> calltable_element \<times> effect list" where
  "cleanup_element ct currtime e =
     (if expired ct currtime e then
        (zero_element,
         case f_pcap e of
           None \<Rightarrow> []
         | Some f \<Rightarrow>
             [Dump_flush f, Dump_close f,
              if erase_non_t38 ct \<and> had_t38 e = 0 then Unlink (fn_pcap e)
              else Fire Trigger_close (fn_pcap e) (caller_mem e) (callee_mem e) (call_id_mem e)
                     (first_packet_time e)])
      else (e, []))"

definition do_cleanup :: "calltable \<Rightarrow> int \<Rightarrow> calltable \<times> effect list" where
  "do_cleanup ct currtime =
     (ct\<lparr>table := map (fst \<circ> cleanup_element ct currtime) (table ct)\<rparr>,
      concat (map (snd \<circ> cleanup_element ct currtime) (table ct)))"

definition add_ipfrag :: "calltable \<Rightarrow> addr_addr_id \<Rightarrow> dumper option \<Rightarrow> calltable" where
  "add_ipfrag ct aai f = ct\<lparr>ipfrags := (ipfrags ct)(aai \<mapsto> f)\<rparr>"

definition delete_ipfrag :: "calltable \<Rightarrow> addr_addr_id \<Rightarrow> calltable" where
  "delete_ipfrag ct aai = ct\<lparr>ipfrags := (ipfrags ct)(aai := None)\<rparr>"

text \<open>\<open>ipfrags[aai]\<close> inserts NULL for a key that is not in the map.\<close>

definition get_ipfrag :: "calltable \<Rightarrow> addr_addr_id \<Rightarrow> calltable \<times> dumper option" where
  "get_ipfrag ct aai =
     (case ipfrags ct aai of
        Some f \<Rightarrow> (ct, f)
      | None \<Rightarrow> (ct\<lparr>ipfrags := (ipfrags ct)(aai \<mapsto> None)\<rparr>, None))"

section \<open>Invariant\<close>

definition flows :: "calltable_element \<Rightarrow> (u32 \<times> u16) list" where
  "flows e = take (ip_n e) (zip (ip e) (port e))"

definition element_ok :: "calltable_element \<Rightarrow> bool" where
  "element_ok e \<longleftrightarrow>
     length (caller e) = 16 \<and> length (callee e) = 16 \<and> length (call_id e) = 32 \<and>
     length (ip e) = 4 \<and> length (port e) = 4 \<and> length (ssrc e) = 4 \<and> length (fn_pcap e) = 128 \<and>
     ip_n e \<le> 4 \<and> distinct (flows e) \<and> (is_used e = 0 \<longrightarrow> e = zero_element)"

text \<open>What identifies a call: the length of its Call-ID and the first 32 bytes of it.\<close>

definition callid_key :: "byte list \<Rightarrow> nat \<Rightarrow> nat \<times> byte list" where
  "callid_key cid cid_len = (cid_len, take (min cid_len 32) cid)"

definition call_key :: "calltable_element \<Rightarrow> nat \<times> byte list" where
  "call_key e = callid_key (call_id e) (call_id_len e)"

definition used_calls :: "calltable \<Rightarrow> calltable_element list" where
  "used_calls ct = filter (\<lambda>e. is_used e \<noteq> 0) (table ct)"

definition ct_inv :: "calltable \<Rightarrow> bool" where
  "ct_inv ct \<longleftrightarrow> list_all element_ok (table ct) \<and> distinct (map call_key (used_calls ct))"

lemma call_id_match_key:
  "call_id_match cid cid_len e \<longleftrightarrow> is_used e \<noteq> 0 \<and> call_key e = callid_key cid cid_len"
  by (auto simp: call_id_match_def call_key_def callid_key_def)

lemma element_ok_zero: "element_ok zero_element"
  by (simp add: element_ok_def zero_element_def flows_def calltable_max_ip_per_call_def)

lemma is_used_zero [simp]: "is_used zero_element = 0"
  by (simp add: zero_element_def)

lemma ct_inv_element: "ct_inv ct \<Longrightarrow> i < length (table ct) \<Longrightarrow> element_ok (table ct ! i)"
  by (simp add: ct_inv_def list_all_length)

lemma ct_inv_frags [ct_inv]: "ct_inv (ct\<lparr>ipfrags := f\<rparr>) \<longleftrightarrow> ct_inv ct"
  by (simp add: ct_inv_def used_calls_def)

lemma ct_inv_time [ct_inv]: "ct_inv (ct\<lparr>global_last_packet_time := t\<rparr>) \<longleftrightarrow> ct_inv ct"
  by (simp add: ct_inv_def used_calls_def)

lemma ct_inv_frag_ops [ct_inv]:
  "ct_inv (add_ipfrag ct a f) \<longleftrightarrow> ct_inv ct" "ct_inv (delete_ipfrag ct a) \<longleftrightarrow> ct_inv ct"
  "ct_inv (fst (get_ipfrag ct a)) \<longleftrightarrow> ct_inv ct"
  by (simp_all add: add_ipfrag_def delete_ipfrag_def get_ipfrag_def ct_inv split: option.splits)

lemma new_calltable_inv [ct_inv]: "ct_inv new_calltable"
  by (simp add: ct_inv_def used_calls_def new_calltable_def)

text \<open>Searching a table with one element replaced, or one appended.\<close>

lemma find_index_append:
  "find_index P (xs @ ys) =
     (case find_index P xs of Some i \<Rightarrow> Some i | None \<Rightarrow> map_option ((+) (length xs)) (find_index P ys))"
  by (induction xs) (cases "find_index P ys"; auto split: option.splits)+

lemma find_index_update_other:
  "\<not> P (xs ! i) \<Longrightarrow> \<not> P y \<Longrightarrow> find_index P (xs[i := y]) = find_index P xs"
  by (induction xs arbitrary: i) (auto split: nat.splits)

lemma find_index_update_new:
  "find_index P xs = None \<Longrightarrow> i < length xs \<Longrightarrow> P y \<Longrightarrow> find_index P (xs[i := y]) = Some i"
  by (induction xs arbitrary: i) (auto split: nat.splits if_splits)

lemma find_index_update_same:
  "i < length xs \<Longrightarrow> P y = P (xs ! i) \<Longrightarrow> find_index P (xs[i := y]) = find_index P xs"
  by (induction xs arbitrary: i) (auto split: nat.splits)

lemma distinct_key_update:
  assumes "distinct (map k (filter P xs))" "i < length xs" "P y \<Longrightarrow> k y \<notin> k ` set (filter P (take i xs @ drop (Suc i) xs))"
  shows "distinct (map k (filter P (xs[i := y])))"
proof -
  have "xs = take i xs @ xs ! i # drop (Suc i) xs" using assms(2) by (rule id_take_nth_drop)
  then have "distinct (map k (filter P (take i xs @ xs ! i # drop (Suc i) xs)))" using assms(1) by simp
  then have "distinct (map k (filter P (take i xs)))" "distinct (map k (filter P (drop (Suc i) xs)))"
    "k ` set (filter P (take i xs)) \<inter> k ` set (filter P (drop (Suc i) xs)) = {}"
    by (auto split: if_splits)
  then show ?thesis
    unfolding upd_conv_take_nth_drop [OF assms(2)] using assms(3) by auto
qed

text \<open>Replacing a used element by one with the same Call-ID keeps the invariant.\<close>

lemma ct_inv_update:
  assumes "ct_inv ct" "i < length (table ct)" "element_ok e" "is_used e \<noteq> 0"
    and "is_used (table ct ! i) \<noteq> 0" "call_key e = call_key (table ct ! i)"
  shows "ct_inv (ct\<lparr>table := (table ct)[i := e]\<rparr>)"
proof -
  let ?P = "\<lambda>e. is_used e \<noteq> 0"
  let ?xs = "table ct"
  have "?xs = take i ?xs @ ?xs ! i # drop (Suc i) ?xs" using assms(2) by (rule id_take_nth_drop)
  then have "distinct (map call_key (filter ?P (take i ?xs @ ?xs ! i # drop (Suc i) ?xs)))"
    using assms(1) by (simp add: ct_inv_def used_calls_def)
  then have "call_key e \<notin> call_key ` set (filter ?P (take i ?xs @ drop (Suc i) ?xs))"
    using assms(5,6) by auto
  with assms(1-3) show ?thesis
    unfolding ct_inv_def used_calls_def
    by (auto intro!: distinct_key_update simp: list_all_iff dest!: subsetD [OF set_update_subset_insert])
qed

section \<open>Adding and finding calls\<close>

text \<open>What \<open>calltable_add\<close> does to a well-formed table, on every outcome.\<close>

lemma calltable_add_cases:
  assumes "ct_inv ct" "calltable_add ct cid n from to time = Some (ct', idx, fx)"
  obtains tab e where
    "tab = table ct \<or> tab = table ct @ [zero_element]"
    "idx < length tab" "tab ! idx = zero_element" "idx = length (table ct) \<longleftrightarrow> tab \<noteq> table ct"
    "table ct' = tab[idx := e]" "ct' = ct\<lparr>table := table ct', global_last_packet_time := time\<rparr>"
    "element_ok e" "is_used e = 1" "call_key e = callid_key cid n" "flows e = []" "ip_n e = 0" "f_pcap e = None"
    "had_bye e = 0" "had_t38 e = 0" "rtpmap_event e = 101"
    "caller e = take 16 from" "callee e = take 16 to" "call_id_len e = n"
    "first_packet_time e = time" "last_packet_time e = time" "packets e = 0"
    "fx = [Fire Trigger_open (replicate 128 0) (caller_mem e) (callee_mem e) (call_id_mem e) time]"
proof -
  let ?free = "find_index (\<lambda>e. is_used e = 0) (table ct)"
  let ?idx = "case ?free of Some i \<Rightarrow> i | None \<Rightarrow> length (table ct)"
  let ?tab = "if ?idx = length (table ct) then table ct @ [zero_element] else table ct"
  have idx: "?idx < length ?tab" "?tab ! ?idx = zero_element"
    "?idx = length (table ct) \<longleftrightarrow> ?tab \<noteq> table ct"
    using ct_inv_element [OF assms(1)]
    by (auto simp: find_index_Some element_ok_def split: option.splits)
  have len: "length (call_id zero_element) = 32" by (simp add: zero_element_def)
  define e where "e id = zero_element\<lparr>is_used := 1, rtpmap_event := 101, had_t38 := 0, had_bye := 0,
      call_id := id, call_id_len := n, caller := take 16 from, callee := take 16 to,
      ip_n := 0, f_pcap := None, first_packet_time := time, last_packet_time := time\<rparr>" for id
  from assms(2) obtain id where id: "put_bytes (call_id zero_element) (take (min n 32) cid) = Some id"
    and r: "min n 32 \<le> length cid" "16 \<le> length from" "16 \<le> length to"
    and ct': "idx = ?idx" "ct' = ct\<lparr>table := ?tab[?idx := e id], global_last_packet_time := time\<rparr>"
    and fx: "fx = [Fire Trigger_open (fn_pcap (e id)) (caller_mem (e id)) (callee_mem (e id)) (call_id_mem (e id)) time]"
    unfolding calltable_add_def Let_def e_def idx(2)
    by (auto simp: region_eq_Some elim!: bind_SomeE)
  have id': "length id = 32" "take (min n 32) id = take (min n 32) cid"
    using put_bytes_length [OF id] len id r(1) by (auto simp: put_bytes_def split: if_splits)
  show thesis
  proof (rule that [of ?tab "e id"])
    show "?tab = table ct \<or> ?tab = table ct @ [zero_element]" by simp
    show "element_ok (e id)" using id' r
      by (simp add: e_def element_ok_def flows_def zero_element_def calltable_max_ip_per_call_def)
    show "call_key (e id) = callid_key cid n" using id' by (simp add: e_def call_key_def callid_key_def)
  qed (use idx ct' fx in \<open>simp_all add: e_def flows_def zero_element_def\<close>)
qed

lemma calltable_add_defined:
  assumes "ct_inv ct" "min n 32 \<le> length cid" "16 \<le> length from" "16 \<le> length to"
  shows "calltable_add ct cid n from to time \<noteq> None"
proof -
  have "length (call_id ((if (case find_index (\<lambda>e. is_used e = 0) (table ct) of Some i \<Rightarrow> i | None \<Rightarrow> length (table ct)) =
      length (table ct) then table ct @ [zero_element] else table ct) !
      (case find_index (\<lambda>e. is_used e = 0) (table ct) of Some i \<Rightarrow> i | None \<Rightarrow> length (table ct)))) = 32"
    using ct_inv_element [OF assms(1)]
    by (auto simp: find_index_Some element_ok_def zero_element_def split: option.splits)
  then show ?thesis using assms(2-4)
    by (auto simp: calltable_add_def Let_def region_def put_bytes_def simp del: not_None_eq)
qed

lemma find_by_call_id_key:
  "find_by_call_id ct cid n = find_index (\<lambda>e. is_used e \<noteq> 0 \<and> call_key e = callid_key cid n) (table ct)"
  unfolding find_by_call_id_def by (rule arg_cong2 [of _ _ _ _ find_index]) (auto simp: call_id_match_key)

lemma find_by_call_id_None:
  "find_by_call_id ct cid n = None \<longleftrightarrow> callid_key cid n \<notin> call_key ` set (used_calls ct)"
  by (fastforce simp: find_by_call_id_key find_index_None used_calls_def image_iff)

lemma calltable_add_find_same:
  assumes "ct_inv ct" "find_by_call_id ct cid n = None"
    and "calltable_add ct cid n from to time = Some (ct', idx, fx)"
  shows "find_by_call_id ct' cid n = Some idx"
  using assms(1,3)
proof (cases rule: calltable_add_cases)
  case (1 tab e)
  let ?P = "\<lambda>e. is_used e \<noteq> 0 \<and> call_key e = callid_key cid n"
  have "find_index ?P tab = None"
    using assms(2) 1(1) by (auto simp: find_by_call_id_key find_index_None)
  with 1 show ?thesis by (simp add: find_by_call_id_key find_index_update_new)
qed

lemma calltable_add_find_other:
  assumes "ct_inv ct" "calltable_add ct cid n from to time = Some (ct', idx, fx)"
    and "callid_key cid' n' \<noteq> callid_key cid n"
  shows "find_by_call_id ct' cid' n' = find_by_call_id ct cid' n'"
  using assms(1,2)
proof (cases rule: calltable_add_cases)
  case (1 tab e)
  let ?P = "\<lambda>e. is_used e \<noteq> 0 \<and> call_key e = callid_key cid' n'"
  have "find_index ?P (tab[idx := e]) = find_index ?P tab"
    using 1 assms(3) by (intro find_index_update_other) auto
  also have "\<dots> = find_index ?P (table ct)"
    using 1(1) by (auto simp: find_index_append split: option.splits)
  finally show ?thesis using 1(5) by (simp add: find_by_call_id_key)
qed

lemma calltable_add_inv [ct_inv]:
  assumes "ct_inv ct" "find_by_call_id ct cid n = None"
    and "calltable_add ct cid n from to time = Some (ct', idx, fx)"
  shows "ct_inv ct'"
  using assms(1,3)
proof (cases rule: calltable_add_cases)
  case (1 tab e)
  have tab: "list_all element_ok tab" "distinct (map call_key (filter (\<lambda>e. is_used e \<noteq> 0) tab))"
    "call_key e \<notin> call_key ` set (filter (\<lambda>e. is_used e \<noteq> 0) tab)"
    using assms(1,2) 1(1,9) by (auto simp: ct_inv_def used_calls_def element_ok_zero find_by_call_id_None)
  have "distinct (map call_key (filter (\<lambda>e. is_used e \<noteq> 0) (tab[idx := e])))"
    using tab(2,3) 1(2) by (intro distinct_key_update) (auto dest: in_set_takeD in_set_dropD)
  moreover have "list_all element_ok (tab[idx := e])"
    using tab(1) 1(7) by (auto simp: list_all_iff dest!: subsetD [OF set_update_subset_insert])
  ultimately show ?thesis using 1(5) by (simp add: ct_inv_def used_calls_def)
qed

lemma find_by_call_id_inj:
  assumes "find_by_call_id ct cid n = Some i" "find_by_call_id ct cid' n' = Some i"
  shows "callid_key cid n = callid_key cid' n'"
  using assms by (auto simp: find_by_call_id_key find_index_Some)

lemma find_by_call_id_bound:
  "find_by_call_id ct cid n = Some i \<Longrightarrow> i < length (table ct) \<and> is_used (table ct ! i) \<noteq> 0"
  by (auto simp: find_by_call_id_key find_index_Some)

text \<open>
  A call is found under a Call-ID exactly when its Call-ID has the same length and the same first
  32 bytes; in a table of the program there is at most one such call.
\<close>

theorem find_by_call_id_iff:
  assumes "ct_inv ct"
  shows "find_by_call_id ct cid n = Some i \<longleftrightarrow>
    i < length (table ct) \<and> is_used (table ct ! i) \<noteq> 0 \<and> call_id_len (table ct ! i) = n \<and>
    take (min n 32) (call_id (table ct ! i)) = take (min n 32) cid"
proof -
  let ?P = "\<lambda>e. is_used e \<noteq> 0 \<and> call_key e = callid_key cid n"
  have unique: False if "?P (table ct ! a)" "?P (table ct ! b)" "a < b" "b < length (table ct)" for a b
  proof -
    have split: "table ct = take a (table ct) @ table ct ! a # drop (Suc a) (table ct)"
      using that by (intro id_take_nth_drop) simp
    have "table ct ! b \<in> set (drop (Suc a) (table ct))"
      using that by (auto simp: in_set_conv_nth intro!: exI [of _ "b - Suc a"])
    moreover have "distinct (map call_key (filter (\<lambda>e. is_used e \<noteq> 0)
        (take a (table ct) @ table ct ! a # drop (Suc a) (table ct))))"
      using assms split by (simp add: ct_inv_def used_calls_def)
    ultimately show False using that(1,2) by force
  qed
  have "find_by_call_id ct cid n = Some i \<longleftrightarrow> i < length (table ct) \<and> ?P (table ct ! i)"
    unfolding find_by_call_id_key find_index_Some using unique [of _ i] by auto
  then show ?thesis by (auto simp: call_key_def callid_key_def)
qed

text \<open>A table with one call, as the witnesses use it.\<close>

definition name_buffer :: "byte list \<Rightarrow> byte list" where
  "name_buffer s = s @ replicate (256 - length s) NUL"

definition one_call :: calltable where
  "one_call = new_calltable\<lparr>table := [zero_element\<lparr>is_used := 1, rtpmap_event := 101,
     call_id := str ''abc@host'' @ replicate 24 0, call_id_len := 8,
     caller := str ''1001'' @ replicate 12 0, callee := str ''1002'' @ replicate 12 0,
     first_packet_time := 1000, last_packet_time := 1000\<rparr>], global_last_packet_time := 1000\<rparr>"

lemma one_call_inv: "ct_inv one_call"
  unfolding ct_inv_def used_calls_def by code_simp

theorem find_by_call_id_iff_witness:
  "find_by_call_id one_call (str ''abc@host'') 8 = Some 0"
  by (subst find_by_call_id_iff [OF one_call_inv]) code_simp

text \<open>
  Call-IDs collide exactly when they have the same length and the same first 32 bytes. So two
  Call-IDs of different length that share their first 32 bytes are kept apart, and two different
  Call-IDs of the same length that share them are taken for the same call.
\<close>

theorem callid_collision:
  assumes "ct_inv ct" "find_by_call_id ct cid n = None"
    and "calltable_add ct cid n from to time = Some (ct', idx, fx)"
    and "n' \<le> length cid'" "n \<le> length cid" "find_by_call_id ct cid' n' = None"
  shows "find_by_call_id ct' cid' n' =
    (if n' = n \<and> take (min n 32) cid' = take (min n 32) cid then Some idx else None)"
proof (cases "callid_key cid' n' = callid_key cid n")
  case True
  then have "find_by_call_id ct' cid' n' = find_by_call_id ct' cid n" by (simp add: find_by_call_id_key)
  with True calltable_add_find_same [OF assms(1-3)] show ?thesis by (auto simp: callid_key_def)
next
  case False
  with calltable_add_find_other [OF assms(1,3) False] assms(6) show ?thesis by (auto simp: callid_key_def)
qed

theorem callid_collision_witness:
  "\<exists>ct' idx fx. calltable_add new_calltable (replicate 40 65) 40 (name_buffer []) (name_buffer []) 0 = Some (ct', idx, fx) \<and>
     find_by_call_id ct' (replicate 32 65 @ replicate 8 66) 40 =
       (if 40 = (40 :: nat) \<and> take (min 40 32) (replicate 32 65 @ replicate 8 66) = take (min 40 32) (replicate 40 (65 :: byte))
        then Some idx else None)"
proof -
  have none: "find_by_call_id new_calltable cid n = None" for cid n
    by (simp add: find_by_call_id_def new_calltable_def)
  have "calltable_add new_calltable (replicate 40 65) 40 (name_buffer []) (name_buffer []) 0 \<noteq> None"
    by (rule calltable_add_defined [OF new_calltable_inv]) (simp_all add: name_buffer_def)
  then obtain ct' idx fx where
    "calltable_add new_calltable (replicate 40 65) 40 (name_buffer []) (name_buffer []) 0 = Some (ct', idx, fx)"
    by auto
  with callid_collision [OF new_calltable_inv none this, of 40 "replicate 32 65 @ replicate 8 66"] none
  show ?thesis by auto
qed

text \<open>
  What the packet loop relies on when it looks a Call-ID up and adds it if it is new: a store of
  calls under the keys of its Call-IDs.
\<close>

locale call_store =
  fixes invar :: "'s \<Rightarrow> bool"
    and key :: "'x \<Rightarrow> 'k"
    and find :: "'s \<Rightarrow> 'x \<Rightarrow> nat option"
    and insert :: "'s \<Rightarrow> 'x \<Rightarrow> 'd \<Rightarrow> ('s \<times> nat) option"
  assumes find_cong: "key x = key y \<Longrightarrow> find s x = find s y"
    and find_inj: "find s x = Some i \<Longrightarrow> find s y = Some i \<Longrightarrow> key x = key y"
    and insert_invar: "invar s \<Longrightarrow> find s x = None \<Longrightarrow> insert s x d = Some (s', i) \<Longrightarrow> invar s'"
    and find_insert: "invar s \<Longrightarrow> find s x = None \<Longrightarrow> insert s x d = Some (s', i) \<Longrightarrow> find s' x = Some i"
    and find_insert_other: "invar s \<Longrightarrow> insert s x d = Some (s', i) \<Longrightarrow> key y \<noteq> key x \<Longrightarrow> find s' y = find s y"
begin

text \<open>A new call gets an index no other call has, and every call keeps its index.\<close>

lemma insert_fresh:
  assumes "invar s" "find s x = None" "insert s x d = Some (s', i)" "find s y = Some j"
  shows "find s' y = Some j \<and> i \<noteq> j"
proof -
  have "key y \<noteq> key x" using assms(2,4) find_cong [of y x s] by auto
  then have "find s' y = Some j" using find_insert_other [OF assms(1,3)] assms(4) by simp
  moreover have "find s' x = Some i" using find_insert assms(1-3) .
  ultimately show ?thesis using find_inj \<open>key y \<noteq> key x\<close> by blast
qed

lemma insert_found_iff:
  assumes "invar s" "find s x = None" "insert s x d = Some (s', i)"
  shows "find s' y = (if key y = key x then Some i else find s y)"
  using find_insert [OF assms] find_insert_other [OF assms(1,3), of y] find_cong [of y x s'] by auto

end

definition store_find :: "calltable \<Rightarrow> byte list \<times> nat \<Rightarrow> nat option" where
  "store_find ct x = find_by_call_id ct (fst x) (snd x)"

definition store_insert ::
  "calltable \<Rightarrow> byte list \<times> nat \<Rightarrow> byte list \<times> byte list \<times> int \<Rightarrow> (calltable \<times> nat) option" where
  "store_insert ct x d = map_option (\<lambda>(ct, i, _). (ct, i))
     (calltable_add ct (fst x) (snd x) (fst d) (fst (snd d)) (snd (snd d)))"

interpretation calls: call_store ct_inv "\<lambda>x. callid_key (fst x) (snd x)" store_find store_insert
proof (unfold_locales, goal_cases)
  case 1
  then show ?case by (simp add: store_find_def find_by_call_id_key)
next
  case 2
  then show ?case unfolding store_find_def by (rule find_by_call_id_inj)
next
  case (3 s x d s' i)
  then show ?case by (auto simp: store_find_def store_insert_def intro: calltable_add_inv)
next
  case (4 s x d s' i)
  then show ?case by (auto simp: store_find_def store_insert_def intro: calltable_add_find_same)
next
  case (5 s x d s' i y)
  then show ?case by (auto simp: store_find_def store_insert_def intro: calltable_add_find_other)
qed

text \<open>
  Adding a call that is not in the table. \<open>calltable_add\<close> is defined, the new call is found
  under its Call-ID at the returned index, with the caller, callee and time of the packet, no flows
  and no file; every other call keeps its index; and the index is not that of another call.
\<close>

theorem calltable_add_registers:
  assumes "ct_inv ct" "find_by_call_id ct cid n = None"
    and "min n 32 \<le> length cid" "16 \<le> length from" "16 \<le> length to"
  shows "\<exists>ct' idx fx e. calltable_add ct cid n from to time = Some (ct', idx, fx) \<and> ct_inv ct' \<and>
    find_by_call_id ct' cid n = Some idx \<and> e = table ct' ! idx \<and>
    caller e = take 16 from \<and> callee e = take 16 to \<and> first_packet_time e = time \<and>
    flows e = [] \<and> f_pcap e = None \<and>
    (\<forall>cid' n' j. find_by_call_id ct cid' n' = Some j \<longrightarrow> find_by_call_id ct' cid' n' = Some j \<and> idx \<noteq> j)"
proof -
  from calltable_add_defined [OF assms(1,3-5), of time] obtain ct' idx fx where
    add: "calltable_add ct cid n from to time = Some (ct', idx, fx)" by auto
  then have ins: "store_insert ct (cid, n) (from, to, time) = Some (ct', idx)"
    and none: "store_find ct (cid, n) = None" using assms(2)
    by (simp_all add: store_insert_def store_find_def)
  have others: "find_by_call_id ct' cid' n' = Some j \<and> idx \<noteq> j" if "find_by_call_id ct cid' n' = Some j" for cid' n' j
    using calls.insert_fresh [OF assms(1) none ins, of "(cid', n')" j] that by (simp add: store_find_def)
  from assms(1) add show ?thesis
  proof (cases rule: calltable_add_cases)
    case (1 tab e)
    then have "table ct' ! idx = e" by simp
    with 1 add others calltable_add_inv [OF assms(1,2) add] calltable_add_find_same [OF assms(1,2) add]
    show ?thesis by (intro exI [of _ ct'] exI [of _ idx] exI [of _ fx] exI [of _ e]) simp
  qed
qed

theorem calltable_add_registers_witness:
  "\<exists>ct' idx fx e. calltable_add one_call (str ''x@y'') 3 (name_buffer (str ''7'')) (name_buffer (str ''8'')) 1010 =
      Some (ct', idx, fx) \<and> ct_inv ct' \<and> find_by_call_id ct' (str ''x@y'') 3 = Some idx \<and> e = table ct' ! idx \<and>
      caller e = take 16 (name_buffer (str ''7'')) \<and> callee e = take 16 (name_buffer (str ''8'')) \<and>
      first_packet_time e = 1010 \<and> flows e = [] \<and> f_pcap e = None \<and>
      (\<forall>cid' n' j. find_by_call_id one_call cid' n' = Some j \<longrightarrow> find_by_call_id ct' cid' n' = Some j \<and> idx \<noteq> j)"
proof (rule calltable_add_registers [OF one_call_inv])
  show "find_by_call_id one_call (str ''x@y'') 3 = None" by code_simp
qed (simp_all add: name_buffer_def)

section \<open>RTP flows\<close>

lemma length_flows: "element_ok e \<Longrightarrow> length (flows e) = ip_n e"
  by (simp add: flows_def element_ok_def)

lemma flows_nth: "element_ok e \<Longrightarrow> i < ip_n e \<Longrightarrow> flows e ! i = (ip e ! i, port e ! i)"
  by (simp add: flows_def element_ok_def)

lemma in_flows:
  "element_ok e \<Longrightarrow> (a, p) \<in> set (flows e) \<longleftrightarrow> (\<exists>i\<in>{0..<ip_n e}. ip e ! i = a \<and> port e ! i = p)"
  by (auto simp: in_set_conv_nth length_flows flows_nth)

text \<open>
  The contract of \<open>add_ip_port\<close> on the list of flows: append if new and there is room. Proved once
  for any such list, what a call has learnt after any number of SDP bodies.
\<close>

locale bounded_flows =
  fixes ok :: "'e \<Rightarrow> bool" and flows_of :: "'e \<Rightarrow> 'f list" and learn :: "'e \<Rightarrow> 'f \<Rightarrow> 'e" and cap :: nat
  assumes learn_ok: "ok e \<Longrightarrow> ok (learn e f)"
    and learn_flows: "ok e \<Longrightarrow> flows_of (learn e f) =
      (if length (flows_of e) \<ge> cap \<or> f \<in> set (flows_of e) then flows_of e else flows_of e @ [f])"
begin

lemma learn_idem: "ok e \<Longrightarrow> flows_of (learn (learn e f) f) = flows_of (learn e f)"
  by (simp add: learn_flows learn_ok)

text \<open>The flows of a call are the first \<open>cap\<close> different ones it was offered, in order.\<close>

lemma learn_all:
  assumes "ok e" "flows_of e = take cap (rev (remdups (rev fs0)))"
  shows "flows_of (fold (\<lambda>f e. learn e f) fs e) = take cap (rev (remdups (rev (fs0 @ fs)))) \<and>
    ok (fold (\<lambda>f e. learn e f) fs e)"
  using assms
proof (induction fs arbitrary: e fs0)
  case Nil
  then show ?case by simp
next
  case (Cons f fs)
  let ?l = "rev (remdups (rev fs0))"
  have "flows_of (learn e f) = take cap (rev (remdups (rev (fs0 @ [f]))))"
  proof (cases "f \<in> set fs0")
    case True
    show ?thesis
    proof (cases "f \<in> set (take cap ?l)")
      case False
      have "f \<in> set ?l" using True by simp
      with False have "length (take cap ?l) = cap" by (cases "cap \<le> length ?l") auto
      then show ?thesis using Cons.prems True by (simp add: learn_flows)
    qed (use Cons.prems True in \<open>simp add: learn_flows\<close>)
  next
    case False
    then have "f \<notin> set (take cap ?l)" by (auto dest: in_set_takeD)
    then show ?thesis using Cons.prems False by (auto simp: learn_flows)
  qed
  with Cons.IH [of "learn e f" "fs0 @ [f]"] Cons.prems learn_ok show ?case by simp
qed

end

lemma add_ip_port_ok:
  assumes "element_ok e" "is_used e \<noteq> 0"
  shows "element_ok (snd (add_ip_port e a p)) \<and> is_used (snd (add_ip_port e a p)) \<noteq> 0 \<and>
    flows (snd (add_ip_port e a p)) =
      (if length (flows e) \<ge> 4 \<or> (a, p) \<in> set (flows e) then flows e else flows e @ [(a, p)])"
proof (cases "ip_n e \<ge> 4 \<or> (a, p) \<in> set (flows e)")
  case True
  then show ?thesis
    using assms by (auto simp: add_ip_port_def length_flows in_flows calltable_max_ip_per_call_def)
next
  case False
  let ?e = "e\<lparr>ip := (ip e)[ip_n e := a], port := (port e)[ip_n e := p], ip_n := ip_n e + 1\<rparr>"
  have eq: "snd (add_ip_port e a p) = ?e"
    using False assms by (auto simp: add_ip_port_def in_flows calltable_max_ip_per_call_def)
  have len: "length (ip e) = 4" "length (port e) = 4" "ip_n e < 4"
    using assms False by (auto simp: element_ok_def)
  then have fl: "flows ?e = flows e @ [(a, p)]"
    by (simp add: flows_def take_Suc_conv_app_nth take_zip)
  have "distinct (flows e @ [(a, p)])" using assms False by (simp add: element_ok_def)
  then have "element_ok ?e"
    using assms len by (simp add: element_ok_def fl [symmetric] del: distinct_append) 
  then show ?thesis using eq fl False assms by (simp add: length_flows)
qed

lemma add_ip_port_key: "call_key (snd (add_ip_port e a p)) = call_key e"
  by (simp add: add_ip_port_def call_key_def)

definition learn_flow :: "calltable_element \<Rightarrow> u32 \<times> u16 \<Rightarrow> calltable_element" where
  "learn_flow e f = snd (add_ip_port e (fst f) (snd f))"

interpretation call_flows: bounded_flows "\<lambda>e. element_ok e \<and> is_used e \<noteq> 0" flows learn_flow 4
  using add_ip_port_ok by unfold_locales (auto simp: learn_flow_def)

text \<open>
  C10: after any number of SDP bodies, the flows a call tracks are the first four different
  address and port pairs they offered, in the order they came; further ones are not followed.
\<close>

theorem tracked_flows:
  assumes "element_ok e" "is_used e \<noteq> 0" "flows e = []"
  shows "flows (fold (\<lambda>(a, p) e. snd (add_ip_port e a p)) offers e) = take 4 (rev (remdups (rev offers)))"
proof -
  have "(\<lambda>(a, p) e. snd (add_ip_port e a p)) = (\<lambda>f e. learn_flow e f)"
    by (auto simp: learn_flow_def fun_eq_iff)
  then show ?thesis using call_flows.learn_all [of e "[]" offers] assms by simp
qed

theorem tracked_flows_witness:
  "flows (fold (\<lambda>(a, p) e. snd (add_ip_port e a p)) [(1, 10), (2, 20), (1, 10), (3, 30), (4, 40), (5, 50)]
     (table one_call ! 0)) = take 4 (rev (remdups (rev [(1, 10), (2, 20), (1, 10), (3, 30), (4, 40), (5, 50)])))"
proof (rule tracked_flows)
  show "element_ok (table one_call ! 0)" using ct_inv_element [OF one_call_inv, of 0] by (simp add: one_call_def)
qed (simp_all add: one_call_def zero_element_def flows_def)

text \<open>The nested loops find the lexicographically first flow that matches.\<close>

definition flow_matches :: "calltable \<Rightarrow> u32 \<Rightarrow> u16 \<Rightarrow> u32 \<Rightarrow> nat \<Rightarrow> nat \<Rightarrow> bool" where
  "flow_matches ct a p s i r \<longleftrightarrow>
     i < length (table ct) \<and> r < length (flows (table ct ! i)) \<and> flows (table ct ! i) ! r = (a, p) \<and>
     (had_bye (table ct ! i) = 0 \<or> ssrc (table ct ! i) ! r = s)"

lemma find_rtp_Some:
  assumes "element_ok e"
  shows "find_rtp a p s e = Some r \<longleftrightarrow> r < length (flows e) \<and> flows e ! r = (a, p) \<and> (had_bye e = 0 \<or> ssrc e ! r = s)"
proof -
  have n: "min calltable_max_ip_per_call (ip_n e) = ip_n e"
    using assms by (simp add: calltable_max_ip_per_call_def element_ok_def)
  have match: "find_rtp a p s e = Some r \<longleftrightarrow> r < ip_n e \<and>
      (flows e ! r = (a, p) \<and> (had_bye e = 0 \<or> ssrc e ! r = s)) \<and>
      (\<forall>j<r. \<not> (flows e ! j = (a, p) \<and> (had_bye e = 0 \<or> ssrc e ! j = s)))"
    unfolding find_rtp_def n find_index_Some using flows_nth [OF assms] by auto
  have "\<not> flows e ! j = (a, p)" if "flows e ! r = (a, p)" "j < r" "r < ip_n e" for j
  proof -
    have "distinct (flows e)" using assms by (simp add: element_ok_def)
    then show ?thesis
      using nth_eq_iff_index_eq [of "flows e" j r] that length_flows [OF assms] by auto
  qed
  then show ?thesis unfolding match length_flows [OF assms] by blast
qed

lemma find_rtp_None:
  assumes "element_ok e"
  shows "find_rtp a p s e = None \<longleftrightarrow>
    (\<forall>r<length (flows e). \<not> (flows e ! r = (a, p) \<and> (had_bye e = 0 \<or> ssrc e ! r = s)))"
  using find_rtp_Some [OF assms, of a p s] by (cases "find_rtp a p s e") auto

lemma find_leg_spec:
  assumes "list_all element_ok es"
  shows "find_leg a p s es = Some (i, r) \<longleftrightarrow>
    i < length es \<and> find_rtp a p s (es ! i) = Some r \<and> (\<forall>j<i. find_rtp a p s (es ! j) = None)"
  using assms
proof (induction es arbitrary: i)
  case Nil
  then show ?case by simp
next
  case (Cons e es)
  show ?case
    by (cases i) (use Cons in \<open>auto split: option.splits simp: less_Suc_eq_0_disj all_conj_distrib\<close>)
qed

lemma find_leg_None: "find_leg a p s es = None \<longleftrightarrow> (\<forall>e\<in>set es. find_rtp a p s e = None)"
  by (induction es) (auto split: option.splits)

lemma find_leg_first:
  assumes "ct_inv ct"
  shows "find_leg a p s (table ct) = Some (i, r) \<longleftrightarrow>
    flow_matches ct a p s i r \<and> (\<forall>j<i. \<forall>q. \<not> flow_matches ct a p s j q)"
proof -
  have ok: "list_all element_ok (table ct)" and ok': "i < length (table ct) \<Longrightarrow> element_ok (table ct ! i)" for i
    using assms by (auto simp: ct_inv_def list_all_length)
  have "j < length (table ct) \<Longrightarrow> find_rtp a p s (table ct ! j) = None \<longleftrightarrow> (\<forall>q. \<not> flow_matches ct a p s j q)" for j
    using find_rtp_None [OF ok'] by (auto simp: flow_matches_def)
  then have "i < length (table ct) \<Longrightarrow>
      (\<forall>j<i. find_rtp a p s (table ct ! j) = None) \<longleftrightarrow> (\<forall>j<i. \<forall>q. \<not> flow_matches ct a p s j q)"
    by (meson less_trans)
  moreover have "i < length (table ct) \<Longrightarrow> find_rtp a p s (table ct ! i) = Some r \<longleftrightarrow> flow_matches ct a p s i r"
    by (simp add: find_rtp_Some [OF ok'] flow_matches_def)
  moreover have "flow_matches ct a p s i r \<Longrightarrow> i < length (table ct)" by (simp add: flow_matches_def)
  ultimately show ?thesis unfolding find_leg_spec [OF ok] by blast
qed

lemma find_leg_nothing:
  assumes "ct_inv ct"
  shows "find_leg a p s (table ct) = None \<longleftrightarrow> (\<forall>i r. \<not> flow_matches ct a p s i r)"
  unfolding find_leg_None all_set_conv_all_nth
  using find_rtp_None [OF ct_inv_element [OF assms]] by (auto simp: flow_matches_def)

lemma find_ip_port_ssrc_hit:
  assumes "ct_inv ct" "flow_matches ct a p s i r" "\<forall>j<i. \<forall>q. \<not> flow_matches ct a p s j q"
  shows "find_ip_port_ssrc ct a p s =
    (ct\<lparr>table := (table ct)[i := (table ct ! i)\<lparr>ssrc := (ssrc (table ct ! i))[r := s]\<rparr>]\<rparr>, Some (i, r))"
  using find_leg_first [OF assms(1), of a p s i r] assms(2,3) by (simp add: find_ip_port_ssrc_def Let_def)

lemma find_ip_port_ssrc_SomeD:
  assumes "ct_inv ct" "find_ip_port_ssrc ct a p s = (ct', Some (i, r))"
  shows "flow_matches ct a p s i r \<and>
    ct' = ct\<lparr>table := (table ct)[i := (table ct ! i)\<lparr>ssrc := (ssrc (table ct ! i))[r := s]\<rparr>]\<rparr>"
  using find_leg_first [OF assms(1), of a p s i r] assms(2)
  by (auto simp: find_ip_port_ssrc_def Let_def split: option.splits)

text \<open>
  C9: \<open>find_ip_port_ssrc\<close> finds a flow exactly when some call tracks the address and port and has not
  seen BYE, or has and last used this SSRC on it; it picks the first such call and its only such
  flow, and stores the SSRC there; when there is none the table is unchanged.
\<close>

theorem find_ip_port_ssrc_iff:
  assumes "ct_inv ct"
  shows "(find_ip_port_ssrc ct a p s = (ct', Some (i, r)) \<longleftrightarrow>
      flow_matches ct a p s i r \<and> (\<forall>j<i. \<forall>q. \<not> flow_matches ct a p s j q) \<and>
      ct' = ct\<lparr>table := (table ct)[i := (table ct ! i)\<lparr>ssrc := (ssrc (table ct ! i))[r := s]\<rparr>]\<rparr>) \<and>
    (find_ip_port_ssrc ct a p s = (ct', None) \<longleftrightarrow> (\<forall>i r. \<not> flow_matches ct a p s i r) \<and> ct' = ct)"
  using find_leg_first [OF assms, of a p s i r] find_leg_nothing [OF assms, of a p s]
  by (auto simp: find_ip_port_ssrc_def Let_def split: option.splits)

text \<open>A table with a call that has learnt one flow.\<close>

definition flow_call :: calltable where
  "flow_call = one_call\<lparr>table := map (\<lambda>e. learn_flow e (5, 4000)) (table one_call)\<rparr>"

lemma flow_call_inv: "ct_inv flow_call"
  unfolding ct_inv_def used_calls_def by code_simp

theorem find_ip_port_ssrc_iff_witness:
  "find_ip_port_ssrc flow_call 5 4000 77 =
     (flow_call\<lparr>table := (table flow_call)[0 := (table flow_call ! 0)\<lparr>ssrc := (ssrc (table flow_call ! 0))[0 := 77]\<rparr>]\<rparr>,
      Some (0, 0))"
proof -
  have "flow_matches flow_call 5 4000 77 0 0" by code_simp
  then show ?thesis
    using find_ip_port_ssrc_iff [OF flow_call_inv, of 5 4000 77 _ 0 0] by blast
qed

lemma find_ip_port_ssrc_update:
  assumes "ct_inv ct" "find_ip_port_ssrc ct a p s = (ct', Some (i, r))"
  shows "i < length (table ct) \<and> is_used (table ct ! i) \<noteq> 0 \<and> r < 4 \<and>
    ct' = ct\<lparr>table := (table ct)[i := (table ct ! i)\<lparr>ssrc := (ssrc (table ct ! i))[r := s]\<rparr>]\<rparr>"
proof -
  have m: "flow_matches ct a p s i r" "ct' = ct\<lparr>table := (table ct)[i := (table ct ! i)\<lparr>ssrc := (ssrc (table ct ! i))[r := s]\<rparr>]\<rparr>"
    using find_ip_port_ssrc_SomeD [OF assms] by auto
  then have i: "i < length (table ct)" "r < ip_n (table ct ! i)"
    using ct_inv_element [OF assms(1)] by (auto simp: flow_matches_def length_flows)
  then have "ip_n (table ct ! i) \<le> 4" "ip_n (table ct ! i) \<noteq> 0" "is_used (table ct ! i) = 0 \<longrightarrow> table ct ! i = zero_element"
    using ct_inv_element [OF assms(1)] by (auto simp: element_ok_def)
  moreover have "ip_n zero_element = 0" by (simp add: zero_element_def)
  ultimately show ?thesis using i m(2) by fastforce
qed

section \<open>Expiry\<close>

lemma do_cleanup_table: "table (fst (do_cleanup ct t)) = map (\<lambda>e. if expired ct t e then zero_element else e) (table ct)"
  by (simp add: do_cleanup_def cleanup_element_def)

lemma do_cleanup_frame [ct_simps]:
  "ipfrags (fst (do_cleanup ct t)) = ipfrags ct" "erase_non_t38 (fst (do_cleanup ct t)) = erase_non_t38 ct"
  "opt_absolute_timeout (fst (do_cleanup ct t)) = opt_absolute_timeout ct"
  "length (table (fst (do_cleanup ct t))) = length (table ct)"
  by (simp_all add: do_cleanup_def)

lemma cleanup_used:
  "used_calls (fst (do_cleanup ct t)) = filter (\<lambda>e. \<not> expired ct t e) (used_calls ct)"
proof -
  have "filter (\<lambda>e. is_used e \<noteq> 0) (map (\<lambda>e. if expired ct t e then zero_element else e) es) =
      filter (\<lambda>e. \<not> expired ct t e) (filter (\<lambda>e. is_used e \<noteq> 0) es)" for es
    by (induction es) auto
  then show ?thesis unfolding used_calls_def do_cleanup_table by blast
qed

lemma do_cleanup_inv [ct_inv]: "ct_inv ct \<Longrightarrow> ct_inv (fst (do_cleanup ct t))"
  unfolding ct_inv_def cleanup_used do_cleanup_table
  by (auto simp: list_all_iff element_ok_zero distinct_map_filter)

lemma expired_used: "expired ct t e \<Longrightarrow> is_used e \<noteq> 0"
  by (simp add: expired_def)

lemma cleanup_effects:
  "x \<in> set (snd (do_cleanup ct t)) \<longleftrightarrow>
   (\<exists>e\<in>set (table ct). \<exists>f. expired ct t e \<and> f_pcap e = Some f \<and>
      (x = Dump_flush f \<or> x = Dump_close f \<or>
       x = (if erase_non_t38 ct \<and> had_t38 e = 0 then Unlink (fn_pcap e)
            else Fire Trigger_close (fn_pcap e) (caller_mem e) (callee_mem e) (call_id_mem e) (first_packet_time e))))"
proof -
  have "x \<in> set (snd (cleanup_element ct t e)) \<longleftrightarrow> (\<exists>f. expired ct t e \<and> f_pcap e = Some f \<and>
      (x = Dump_flush f \<or> x = Dump_close f \<or>
       x = (if erase_non_t38 ct \<and> had_t38 e = 0 then Unlink (fn_pcap e)
            else Fire Trigger_close (fn_pcap e) (caller_mem e) (callee_mem e) (call_id_mem e) (first_packet_time e))))" for e
    by (cases "f_pcap e") (simp_all add: cleanup_element_def)
  then show ?thesis unfolding do_cleanup_def by (simp del: if_split)
qed

lemma find_after_cleanup:
  assumes "ct_inv ct"
  shows "find_by_call_id (fst (do_cleanup ct t)) cid n = Some i \<longleftrightarrow>
    find_by_call_id ct cid n = Some i \<and> \<not> expired ct t (table ct ! i)"
  unfolding find_by_call_id_iff [OF do_cleanup_inv [OF assms]] find_by_call_id_iff [OF assms] ct_simps
  by (cases "expired ct t (table ct ! i)") (auto simp: do_cleanup_table dest: expired_used)

lemma call_not_found_after_cleanup:
  assumes "ct_inv ct" "find_by_call_id ct cid n = Some i" "expired ct t (table ct ! i)"
  shows "find_by_call_id (fst (do_cleanup ct t)) cid n = None"
  using find_after_cleanup [OF assms(1), of t cid n] assms(2,3) by (metis not_None_eq option.inject)

text \<open>
  C13: cleaning up removes exactly the expired calls from the table. A call is still found afterwards,
  at the same index, if and only if it was found before and has neither been idle for more than 300
  seconds nor lasted longer than the \<open>-T\<close> limit; and the dumpers closed are exactly the files of the
  expired calls.
\<close>

theorem do_cleanup_expires:
  assumes "ct_inv ct"
  shows "(find_by_call_id (fst (do_cleanup ct t)) cid n = Some i \<longleftrightarrow>
      find_by_call_id ct cid n = Some i \<and>
      \<not> (t - last_packet_time (table ct ! i) > 300 \<or>
         t - first_packet_time (table ct ! i) > opt_absolute_timeout ct)) \<and>
    (Dump_close f \<in> set (snd (do_cleanup ct t)) \<longleftrightarrow>
      (\<exists>e\<in>set (used_calls ct). f_pcap e = Some f \<and>
        (t - last_packet_time e > 300 \<or> t - first_packet_time e > opt_absolute_timeout ct)))"
proof -
  have "find_by_call_id (fst (do_cleanup ct t)) cid n = Some i \<longleftrightarrow>
      find_by_call_id ct cid n = Some i \<and> \<not> expired ct t (table ct ! i)"
    by (rule find_after_cleanup [OF assms])
  moreover have "find_by_call_id ct cid n = Some i \<Longrightarrow> is_used (table ct ! i) \<noteq> 0"
    using find_by_call_id_bound by blast
  moreover have "Dump_close f \<in> set (snd (do_cleanup ct t)) \<longleftrightarrow>
      (\<exists>e\<in>set (table ct). expired ct t e \<and> f_pcap e = Some f)"
  proof -
    have "Dump_close f \<noteq> (if b then Unlink u else Fire k v w x y z)" for b u k v w x y z by simp
    then show ?thesis unfolding cleanup_effects by (simp del: if_split)
  qed
  ultimately show ?thesis by (auto simp: expired_def used_calls_def)
qed

theorem do_cleanup_expires_witness:
  "find_by_call_id (fst (do_cleanup one_call 1300)) (str ''abc@host'') 8 = Some 0"
  by (subst do_cleanup_expires [OF one_call_inv, THEN conjunct1]) code_simp

text \<open>
  Closing a file. An expired call with an open file has it flushed, then closed, and then its
  file is unlinked if only T.38 calls are kept and it had none, and otherwise the close trigger
  fires with its file name, caller, callee and Call-ID; its slot is zeroed for the next call.
\<close>

theorem do_cleanup_closes_in_order:
  assumes "table ct = es @ e # es'" "expired ct t e" "f_pcap e = Some f"
  shows "\<exists>fx fx'. snd (do_cleanup ct t) = fx @
      [Dump_flush f, Dump_close f,
       if erase_non_t38 ct \<and> had_t38 e = 0 then Unlink (fn_pcap e)
       else Fire Trigger_close (fn_pcap e) (caller_mem e) (callee_mem e) (call_id_mem e) (first_packet_time e)]
      @ fx' \<and>
    table (fst (do_cleanup ct t)) ! length es = zero_element"
  using assms by (auto simp: do_cleanup_def cleanup_element_def nth_append)

definition open_call :: "byte \<Rightarrow> dumper \<Rightarrow> calltable_element" where
  "open_call c f = (table one_call ! 0)\<lparr>call_id := replicate 32 c, f_pcap := Some f\<rparr>"

theorem do_cleanup_closes_in_order_witness:
  "\<exists>fx fx'. snd (do_cleanup (new_calltable\<lparr>table := [open_call 65 7]\<rparr>) 5000) = fx @
      [Dump_flush 7, Dump_close 7,
       if erase_non_t38 (new_calltable\<lparr>table := [open_call 65 7]\<rparr>) \<and> had_t38 (open_call 65 7) = 0
       then Unlink (fn_pcap (open_call 65 7))
       else Fire Trigger_close (fn_pcap (open_call 65 7)) (caller_mem (open_call 65 7)) (callee_mem (open_call 65 7))
         (call_id_mem (open_call 65 7)) (first_packet_time (open_call 65 7))] @ fx' \<and>
    table (fst (do_cleanup (new_calltable\<lparr>table := [open_call 65 7]\<rparr>) 5000)) ! length [] = zero_element"
  using do_cleanup_closes_in_order [of "new_calltable\<lparr>table := [open_call 65 7]\<rparr>" "[]" "open_call 65 7" "[]" 5000 7]
  by (simp add: open_call_def one_call_def expired_def)

text \<open>
  The interrupt handlers clean up at time 0, which closes nothing: with packet times and a \<open>-T\<close>
  limit that are not negative, \<open>do_cleanup (0)\<close> leaves the table as it is and has no effects, so on
  SIGINT or SIGTERM no file is closed, no trigger fires and no file without T.38 is unlinked.
\<close>

theorem do_cleanup_at_0:
  assumes "\<And>e. e \<in> set (table ct) \<Longrightarrow> 0 \<le> first_packet_time e \<and> 0 \<le> last_packet_time e"
    and "0 \<le> opt_absolute_timeout ct"
  shows "do_cleanup ct 0 = (ct, [])"
proof -
  have "cleanup_element ct 0 e = (e, [])" if "e \<in> set (table ct)" for e
    using assms(1) [OF that] assms(2) by (simp add: cleanup_element_def expired_def)
  then have "map (fst \<circ> cleanup_element ct 0) (table ct) = map id (table ct)"
    "map (snd \<circ> cleanup_element ct 0) (table ct) = map (\<lambda>e. []) (table ct)"
    by (simp_all cong: map_cong)
  moreover have "concat (map (\<lambda>e. []) (table ct)) = ([] :: effect list)" by simp
  ultimately show ?thesis unfolding do_cleanup_def by (simp only:) simp
qed

theorem do_cleanup_at_0_witness:
  "do_cleanup (new_calltable\<lparr>table := [open_call 65 7]\<rparr>) 0 = (new_calltable\<lparr>table := [open_call 65 7]\<rparr>, [])"
  by (rule do_cleanup_at_0) (simp_all add: open_call_def one_call_def new_calltable_def INT32_MAX_def)

text \<open>
  The final clean-up of \<open>main\<close>, at time \<open>INT32_MAX\<close>, ends every call whose last packet is older
  than that by more than 300 seconds: the table has no call left. Calls with packets after January
  2038 (or a capture file with such times) are not ended.
\<close>

theorem do_cleanup_final:
  "used_calls (fst (do_cleanup ct INT32_MAX)) = [] \<longleftrightarrow>
   (\<forall>e\<in>set (used_calls ct). last_packet_time e < 2147483347 \<or>
      first_packet_time e < 2147483647 - opt_absolute_timeout ct)"
  unfolding cleanup_used filter_empty_conv
  by (auto simp: expired_def INT32_MAX_def used_calls_def)

theorem do_cleanup_final_witness:
  "used_calls (fst (do_cleanup one_call INT32_MAX)) = []"
  unfolding do_cleanup_final by code_simp

section \<open>Fragments\<close>

text \<open>What the packet loop relies on to send the fragments of a datagram to one file.\<close>

locale frag_store =
  fixes lookup :: "'s \<Rightarrow> 'k \<Rightarrow> 'f option"
    and get :: "'s \<Rightarrow> 'k \<Rightarrow> 's \<times> 'f option"
    and add :: "'s \<Rightarrow> 'k \<Rightarrow> 'f option \<Rightarrow> 's"
    and del :: "'s \<Rightarrow> 'k \<Rightarrow> 's"
  assumes get_lookup: "snd (get s k) = lookup s k"
    and get_keeps: "lookup (fst (get s k)) = lookup s"
    and add_lookup: "lookup (add s k f) = (lookup s)(k := f)"
    and del_lookup: "lookup (del s k) = (lookup s)(k := None)"
begin

text \<open>Between the first fragment and the deletion, lookups give the file of the first fragment.\<close>

lemma gets_keep: "lookup (fold (\<lambda>k s. fst (get s k)) ks s) = lookup s"
  by (induction ks arbitrary: s) (simp_all add: get_keeps)

lemma add_gets: "snd (get (fold (\<lambda>k s. fst (get s k)) ks (add s k f)) k) = f"
  by (simp add: get_lookup gets_keep add_lookup)

lemma add_others:
  "k \<notin> set ks \<Longrightarrow> snd (get (fold (\<lambda>k' s. del s k') ks (add s k f)) k) = f"
proof -
  have "lookup (fold (\<lambda>k' s. del s k') ks s) k = lookup s k" if "k \<notin> set ks" for s
    using that by (induction ks arbitrary: s) (simp_all add: del_lookup)
  then show "k \<notin> set ks \<Longrightarrow> ?thesis" by (simp add: get_lookup add_lookup)
qed

lemma del_get: "snd (get (del s k) k) = None"
  by (simp add: get_lookup del_lookup)

end

definition frag_lookup :: "calltable \<Rightarrow> addr_addr_id \<Rightarrow> dumper option" where
  "frag_lookup ct k = (case ipfrags ct k of Some f \<Rightarrow> f | None \<Rightarrow> None)"

interpretation frags: frag_store frag_lookup get_ipfrag add_ipfrag delete_ipfrag
  by unfold_locales
    (auto simp: frag_lookup_def get_ipfrag_def add_ipfrag_def delete_ipfrag_def fun_eq_iff split: option.splits)

text \<open>
  The fragment map. After the first fragment of a datagram is registered, each lookup of its
  addresses and id returns the file of its call, whatever other datagrams were looked up or
  completed in between; after the last fragment is seen, none does.
\<close>

theorem fragments_follow_call:
  assumes "aai \<notin> set finished"
  shows "snd (get_ipfrag (fold (\<lambda>k s. delete_ipfrag s k) finished
      (fold (\<lambda>k s. fst (get_ipfrag s k)) seen (add_ipfrag ct aai f))) aai) = f \<and>
    snd (get_ipfrag (delete_ipfrag ct aai) aai) = None"
proof -
  have "frag_lookup (fold (\<lambda>k s. delete_ipfrag s k) finished s) aai = frag_lookup s aai" for s
    using assms by (induction finished arbitrary: s) (simp_all add: frags.del_lookup)
  then show ?thesis
    by (simp add: frags.get_lookup frags.gets_keep frags.add_lookup frags.del_lookup)
qed

theorem fragments_follow_call_witness:
  "snd (get_ipfrag (fold (\<lambda>k s. delete_ipfrag s k) [Addr_addr_id 1 2 4]
      (fold (\<lambda>k s. fst (get_ipfrag s k)) [Addr_addr_id 1 2 3] (add_ipfrag one_call (Addr_addr_id 1 2 3) (Some 7))))
        (Addr_addr_id 1 2 3)) = Some 7 \<and>
    snd (get_ipfrag (delete_ipfrag one_call (Addr_addr_id 1 2 3)) (Addr_addr_id 1 2 3)) = None"
  by (rule fragments_follow_call) simp

text \<open>
  Clean-up does not know the fragment map. When a call expires while fragments of one of its
  datagrams are outstanding, its dumper is closed, and the next fragment is still given that closed
  dumper, to which the packet loop writes.
\<close>

theorem expired_call_leaves_fragments:
  assumes "e \<in> set (table ct)" "expired ct t e" "f_pcap e = Some f" "ipfrags ct aai = Some (Some f)"
  shows "Dump_close f \<in> set (snd (do_cleanup ct t)) \<and>
    snd (get_ipfrag (fst (do_cleanup ct t)) aai) = Some f"
proof -
  have "Dump_close f \<in> set (snd (do_cleanup ct t))"
    unfolding cleanup_effects using assms(1-3) by blast
  moreover have "ipfrags (fst (do_cleanup ct t)) aai = Some (Some f)" using assms(4) by (simp add: ct_simps)
  ultimately show ?thesis by (simp add: get_ipfrag_def)
qed

theorem expired_call_leaves_fragments_witness:
  "Dump_close 7 \<in> set (snd (do_cleanup
      (add_ipfrag (new_calltable\<lparr>table := [open_call 65 7]\<rparr>) (Addr_addr_id 1 2 3) (Some 7)) 5000)) \<and>
   snd (get_ipfrag (fst (do_cleanup
      (add_ipfrag (new_calltable\<lparr>table := [open_call 65 7]\<rparr>) (Addr_addr_id 1 2 3) (Some 7)) 5000))
      (Addr_addr_id 1 2 3)) = Some 7"
  by (rule expired_call_leaves_fragments [of "open_call 65 7"])
    (simp_all add: open_call_def one_call_def expired_def add_ipfrag_def)

section \<open>Steps of the table\<close>

text \<open>
  Everything the program does to its call table at the time \<open>now\<close> of a packet, as a step relation: the
  operations above, and the fields the packet loop sets on a call of the table. Only RTP packets,
  looked for when \<open>rtp\<close> holds, count as packets of a call and set the time of its last one. A file is opened
  only for a call without one, and fragments are registered with the file of a call.
\<close>

inductive ct_step :: "bool \<Rightarrow> int \<Rightarrow> calltable \<Rightarrow> calltable \<Rightarrow> bool" for rtp now where
  Add: "find_by_call_id ct cid n = None \<Longrightarrow> calltable_add ct cid n from to now = Some (ct', idx, fx) \<Longrightarrow> ct_step rtp now ct ct'"
| Learn: "i < length (table ct) \<Longrightarrow> is_used (table ct ! i) \<noteq> 0 \<Longrightarrow>
    ct_step rtp now ct (ct\<lparr>table := (table ct)[i := snd (add_ip_port (table ct ! i) a p)]\<rparr>)"
| Mark: "i < length (table ct) \<Longrightarrow> is_used (table ct ! i) \<noteq> 0 \<Longrightarrow>
    ct_step rtp now ct (ct\<lparr>table := (table ct)[i := (table ct ! i)\<lparr>had_bye := b, had_t38 := t, rtpmap_event := r\<rparr>]\<rparr>)"
| Count: "rtp \<Longrightarrow> i < length (table ct) \<Longrightarrow> is_used (table ct ! i) \<noteq> 0 \<Longrightarrow>
    ct_step rtp now ct (ct\<lparr>table := (table ct)[i := (table ct ! i)\<lparr>last_packet_time := now, packets := k\<rparr>]\<rparr>)"
| Open: "i < length (table ct) \<Longrightarrow> is_used (table ct ! i) \<noteq> 0 \<Longrightarrow> f_pcap (table ct ! i) = None \<Longrightarrow> length name = 128 \<Longrightarrow>
    ct_step rtp now ct (ct\<lparr>table := (table ct)[i := (table ct ! i)\<lparr>f_pcap := f, fn_pcap := name\<rparr>]\<rparr>)"
| Find: "ct_step rtp now ct (fst (find_ip_port_ssrc ct a p s))"
| Clean: "ct_step rtp now ct (fst (do_cleanup ct now))"
| Frag_get: "ct_step rtp now ct (fst (get_ipfrag ct aai))"
| Frag_add: "i < length (table ct) \<Longrightarrow> is_used (table ct ! i) \<noteq> 0 \<Longrightarrow>
    ct_step rtp now ct (add_ipfrag ct aai (f_pcap (table ct ! i)))"
| Frag_del: "ct_step rtp now ct (delete_ipfrag ct aai)"

text \<open>Steps at any times.\<close>

definition any_step :: "calltable \<Rightarrow> calltable \<Rightarrow> bool" where
  "any_step c c' \<longleftrightarrow> (\<exists>rtp now. ct_step rtp now c c')"

lemma any_steps: "(ct_step rtp now)\<^sup>*\<^sup>* c c' \<Longrightarrow> any_step\<^sup>*\<^sup>* c c'"
proof (induction rule: rtranclp_induct)
  case (step y z)
  from step.hyps(2) have "any_step y z" unfolding any_step_def by blast
  with step.IH show ?case by (rule rtranclp.rtrancl_into_rtrancl)
qed simp

lemma element_ok_fields:
  "element_ok e \<Longrightarrow> is_used e \<noteq> 0 \<Longrightarrow> element_ok (e\<lparr>had_bye := b, had_t38 := t, rtpmap_event := r\<rparr>)"
  "element_ok e \<Longrightarrow> is_used e \<noteq> 0 \<Longrightarrow> element_ok (e\<lparr>last_packet_time := lt, packets := k\<rparr>)"
  "element_ok e \<Longrightarrow> is_used e \<noteq> 0 \<Longrightarrow> length name = 128 \<Longrightarrow> element_ok (e\<lparr>f_pcap := f, fn_pcap := name\<rparr>)"
  "element_ok e \<Longrightarrow> is_used e \<noteq> 0 \<Longrightarrow> element_ok (e\<lparr>ssrc := (ssrc e)[j := s]\<rparr>)"
  by (simp_all add: element_ok_def flows_def)

lemma call_key_fields:
  "call_key (e\<lparr>had_bye := b, had_t38 := t, rtpmap_event := r\<rparr>) = call_key e"
  "call_key (e\<lparr>last_packet_time := lt, packets := k\<rparr>) = call_key e"
  "call_key (e\<lparr>f_pcap := f, fn_pcap := name\<rparr>) = call_key e"
  "call_key (e\<lparr>ssrc := x\<rparr>) = call_key e"
  by (simp_all add: call_key_def)

lemma find_ip_port_ssrc_inv [ct_inv]:
  assumes "ct_inv ct"
  shows "ct_inv (fst (find_ip_port_ssrc ct a p s))"
proof (cases "snd (find_ip_port_ssrc ct a p s)")
  case None
  then have "fst (find_ip_port_ssrc ct a p s) = ct"
    by (auto simp: find_ip_port_ssrc_def Let_def split: option.splits)
  with assms show ?thesis by simp
next
  case (Some ir)
  obtain i r where "ir = (i, r)" by (cases ir)
  with Some have "find_ip_port_ssrc ct a p s = (fst (find_ip_port_ssrc ct a p s), Some (i, r))"
    by (metis prod.collapse)
  from find_ip_port_ssrc_update [OF assms this] show ?thesis
    using assms ct_inv_element [OF assms] element_ok_fields(4) [of "table ct ! i"]
    by (auto intro!: ct_inv_update simp: call_key_fields)
qed

lemma ct_step_inv: "ct_step rtp now ct ct' \<Longrightarrow> ct_inv ct \<Longrightarrow> ct_inv ct'"
proof (induction rule: ct_step.induct)
  case (Add ct cid n "from" to ct' idx fx)
  then show ?case by (rule_tac calltable_add_inv)
next
  case (Learn i ct a p)
  then show ?case using add_ip_port_ok ct_inv_element
    by (intro ct_inv_update) (auto simp: add_ip_port_key)
next
  case (Mark i ct b t r)
  then show ?case using element_ok_fields(1) ct_inv_element
    by (intro ct_inv_update) (auto simp: call_key_fields)
next
  case (Count i ct k)
  then show ?case using element_ok_fields(2) ct_inv_element
    by (intro ct_inv_update) (auto simp: call_key_fields)
next
  case (Open i ct name f)
  then show ?case using element_ok_fields(3) ct_inv_element
    by (intro ct_inv_update) (auto simp: call_key_fields)
qed (simp_all add: ct_inv)

text \<open>
  In every table the program can reach from the empty one, by any sequence of its operations,
  each call has at most four flows, all different, every array has its declared size, free slots are
  zeroed, and no two calls have the same Call-ID key.
\<close>

theorem operations_keep_inv:
  assumes "any_step\<^sup>*\<^sup>* (new_calltable\<lparr>erase_non_t38 := t38, opt_absolute_timeout := limit\<rparr>) ct"
  shows "ct_inv ct"
  using assms
proof (induction rule: rtranclp_induct)
  case base
  then show ?case by (simp add: ct_inv_def used_calls_def new_calltable_def)
qed (auto simp: any_step_def intro: ct_step_inv)

theorem operations_keep_inv_witness:
  "ct_inv (delete_ipfrag (fst (do_cleanup (new_calltable\<lparr>erase_non_t38 := True, opt_absolute_timeout := 60\<rparr>) 100))
     (Addr_addr_id 1 2 3))"
  by (rule operations_keep_inv [of 60 True]) (rule rtranclp.rtrancl_into_rtrancl [OF r_into_rtranclp];
    simp only: any_step_def; blast intro: ct_step.intros)

text \<open>
  The keys of the fragment map are distinguished by \<open>operator <\<close> exactly when one of their fields
  differs, and never ordered both ways (the \<open>linorder\<close> instance has the other laws \<open>std::map\<close> requires).
\<close>

theorem addr_addr_id_keys:
  fixes a b :: addr_addr_id
  shows "(\<not> a < b \<and> \<not> b < a \<longleftrightarrow> aai_saddr a = aai_saddr b \<and> aai_daddr a = aai_daddr b \<and> aai_id a = aai_id b) \<and>
    \<not> (a < b \<and> b < a)"
proof -
  have "\<not> a < b \<and> \<not> b < a \<longleftrightarrow> a = b" by auto
  then show ?thesis by (auto simp: addr_addr_id.expand)
qed

section \<open>The table as a map of calls\<close>

text \<open>The abstract view of the table: a finite map from what identifies a call to the call.\<close>

definition call_map :: "calltable \<Rightarrow> nat \<times> byte list \<rightharpoonup> calltable_element" where
  "call_map ct = map_of (map (\<lambda>e. (call_key e, e)) (used_calls ct))"

lemma call_map_Some: "ct_inv ct \<Longrightarrow> call_map ct k = Some e \<longleftrightarrow> e \<in> set (used_calls ct) \<and> call_key e = k"
  unfolding call_map_def by (subst map_of_eq_Some_iff) (auto simp: ct_inv_def comp_def)

lemma call_map_eqI:
  assumes "ct_inv ct" "\<And>k e. f k = Some e \<longleftrightarrow> e \<in> set (used_calls ct) \<and> call_key e = k"
  shows "call_map ct = f"
proof
  show "call_map ct k = f k" for k
    using call_map_Some [OF assms(1), of k] assms(2) [of k]
    by (cases "call_map ct k"; cases "f k") (blast | simp)+
qed

lemma find_call_map:
  assumes "ct_inv ct"
  shows "map_option (\<lambda>i. table ct ! i) (find_by_call_id ct cid n) = call_map ct (callid_key cid n)"
proof (cases "find_by_call_id ct cid n")
  case None
  then have "call_map ct (callid_key cid n) \<noteq> Some e" for e
    using call_map_Some [OF assms, of "callid_key cid n" e] by (metis find_by_call_id_None imageI)
  then show ?thesis using None by (cases "call_map ct (callid_key cid n)") auto
next
  case (Some i)
  then have "table ct ! i \<in> set (used_calls ct) \<and> call_key (table ct ! i) = callid_key cid n"
    by (auto simp: find_by_call_id_key find_index_Some used_calls_def)
  then have "call_map ct (callid_key cid n) = Some (table ct ! i)" using call_map_Some [OF assms] by simp
  then show ?thesis using Some by simp
qed

lemma used_calls_update:
  assumes "i < length tab" "is_used (tab ! i) = 0" "is_used e \<noteq> 0"
  shows "{x \<in> set (tab[i := e]). is_used x \<noteq> 0} = insert e {x \<in> set tab. is_used x \<noteq> 0}"
proof -
  have "set tab = insert (tab ! i) (set (take i tab) \<union> set (drop (Suc i) tab))"
    using id_take_nth_drop [OF assms(1)] by (metis Un_insert_right list.simps(15) set_append)
  then show ?thesis using assms by (auto simp: upd_conv_take_nth_drop)
qed

lemma used_calls_same_key:
  assumes "ct_inv ct" "i < length (table ct)" "is_used (table ct ! i) \<noteq> 0" "is_used e \<noteq> 0" "call_key e = call_key (table ct ! i)"
  shows "x \<in> set (used_calls (ct\<lparr>table := (table ct)[i := e]\<rparr>)) \<longleftrightarrow>
    x = e \<or> x \<in> set (used_calls ct) \<and> call_key x \<noteq> call_key e"
proof -
  let ?P = "\<lambda>e. is_used e \<noteq> 0"
  define R where "R = set (filter ?P (take i (table ct) @ drop (Suc i) (table ct)))"
  have split: "table ct = take i (table ct) @ table ct ! i # drop (Suc i) (table ct)" using assms(2) by (rule id_take_nth_drop)
  have "distinct (map call_key (filter ?P (take i (table ct) @ table ct ! i # drop (Suc i) (table ct))))"
    using assms(1) split by (simp add: ct_inv_def used_calls_def)
  then have "call_key e \<notin> call_key ` R" using assms(3,5) by (auto simp: R_def)
  then have fresh: "y \<in> R \<Longrightarrow> call_key y \<noteq> call_key e" for y by (metis imageI)
  have "set (used_calls ct) = insert (table ct ! i) R"
    unfolding used_calls_def R_def using assms(3) by (subst split) auto
  moreover have "set (used_calls (ct\<lparr>table := (table ct)[i := e]\<rparr>)) = insert e R"
    unfolding used_calls_def R_def using assms(2,4) by (auto simp: upd_conv_take_nth_drop)
  ultimately show ?thesis using fresh assms(5) by auto
qed

lemma call_map_upd:
  assumes "ct_inv ct" "ct_inv ct'" "call_key e = k"
    and "\<And>x. x \<in> set (used_calls ct') \<longleftrightarrow> x = e \<or> x \<in> set (used_calls ct) \<and> call_key x \<noteq> k"
  shows "call_map ct' = (call_map ct)(k \<mapsto> e)"
proof (rule call_map_eqI [OF assms(2)])
  show "((call_map ct)(k \<mapsto> e)) j = Some x \<longleftrightarrow> x \<in> set (used_calls ct') \<and> call_key x = j" for j x
    using call_map_Some [OF assms(1), of j x] assms(3,4) by (cases "j = k") auto
qed

text \<open>What each operation of the table does to the map.\<close>

lemma call_map_add:
  assumes "ct_inv ct" "call_map ct (callid_key cid n) = None" "calltable_add ct cid n from to time = Some (ct', idx, fx)"
  shows "call_map ct' = (call_map ct)(callid_key cid n \<mapsto> table ct' ! idx)"
proof -
  have new: "find_by_call_id ct cid n = None" using find_call_map [OF assms(1), of cid n] assms(2) by simp
  have inv': "ct_inv ct'" by (rule calltable_add_inv [OF assms(1) new assms(3)])
  from assms(1,3) show ?thesis
  proof (cases rule: calltable_add_cases)
    case (1 tab e)
    have "set (used_calls ct') = {x \<in> set (tab[idx := e]). is_used x \<noteq> 0}" by (simp add: used_calls_def 1(5))
    also have "\<dots> = insert e {x \<in> set tab. is_used x \<noteq> 0}"
      by (rule used_calls_update [OF 1(2)]) (simp_all add: 1(3,8))
    also have "{x \<in> set tab. is_used x \<noteq> 0} = set (used_calls ct)" using 1(1) by (auto simp: used_calls_def)
    finally have set: "set (used_calls ct') = insert e (set (used_calls ct))" .
    have "call_key x \<noteq> callid_key cid n" if "x \<in> set (used_calls ct)" for x
      using new that unfolding find_by_call_id_None by (metis imageI)
    then have "x \<in> set (used_calls ct') \<longleftrightarrow> x = e \<or> x \<in> set (used_calls ct) \<and> call_key x \<noteq> callid_key cid n" for x
      unfolding set by blast
    then have "call_map ct' = (call_map ct)(callid_key cid n \<mapsto> e)" by (rule call_map_upd [OF assms(1) inv' 1(9)])
    then show ?thesis using 1(2,5) by simp
  qed
qed

lemma call_map_learn:
  assumes "ct_inv ct" "find_by_call_id ct cid n = Some i"
  shows "call_map (ct\<lparr>table := (table ct)[i := snd (add_ip_port (table ct ! i) a p)]\<rparr>) =
    (call_map ct)(callid_key cid n := map_option (\<lambda>e. snd (add_ip_port e a p)) (call_map ct (callid_key cid n)))"
proof -
  let ?e = "snd (add_ip_port (table ct ! i) a p)"
  have i: "i < length (table ct)" "is_used (table ct ! i) \<noteq> 0" "call_key (table ct ! i) = callid_key cid n"
    using assms(2) by (auto simp: find_by_call_id_key find_index_Some)
  note e = add_ip_port_ok [OF ct_inv_element [OF assms(1) i(1)] i(2), of a p]
  have inv': "ct_inv (ct\<lparr>table := (table ct)[i := ?e]\<rparr>)"
    using e i by (intro ct_inv_update [OF assms(1) i(1)]) (simp_all add: add_ip_port_key)
  have "x \<in> set (used_calls (ct\<lparr>table := (table ct)[i := ?e]\<rparr>)) \<longleftrightarrow>
      x = ?e \<or> x \<in> set (used_calls ct) \<and> call_key x \<noteq> callid_key cid n" for x
    using used_calls_same_key [OF assms(1) i(1,2), of ?e] e i(3) by (simp add: add_ip_port_key)
  moreover have "call_key ?e = callid_key cid n" using i(3) by (simp add: add_ip_port_key)
  moreover have "call_map ct (callid_key cid n) = Some (table ct ! i)"
    using find_call_map [OF assms(1), of cid n] assms(2) by simp
  ultimately show ?thesis using call_map_upd [OF assms(1) inv', of ?e "callid_key cid n"] by simp
qed

lemma call_map_cleanup:
  assumes "ct_inv ct"
  shows "call_map (fst (do_cleanup ct t)) = (\<lambda>k. Option.bind (call_map ct k) (\<lambda>e. if expired ct t e then None else Some e))"
  using call_map_Some [OF assms]
  by (intro call_map_eqI [OF do_cleanup_inv [OF assms]]) (auto simp: cleanup_used bind_eq_Some_conv)

text \<open>
  C12: the call table is a map from Call-IDs to calls. A Call-ID counts by its length and first 32
  bytes: Call-IDs that agree in both are one call. Looking up, adding, learning a flow and cleaning up
  on the vector are lookup, insertion, update and removal of the expired calls on the map.
\<close>

theorem call_table_refines_map:
  assumes "ct_inv ct"
  shows "map_option (\<lambda>i. table ct ! i) (find_by_call_id ct cid n) = call_map ct (n, take (min n 32) cid) \<and>
    (call_map ct (n, take (min n 32) cid) = None \<and> calltable_add ct cid n from to time = Some (ct', idx, fx) \<longrightarrow>
      call_map ct' = (call_map ct)((n, take (min n 32) cid) \<mapsto> table ct' ! idx)) \<and>
    (find_by_call_id ct cid n = Some i \<longrightarrow>
      call_map (ct\<lparr>table := (table ct)[i := snd (add_ip_port (table ct ! i) a p)]\<rparr>) =
      (call_map ct)((n, take (min n 32) cid) := map_option (\<lambda>e. snd (add_ip_port e a p)) (call_map ct (n, take (min n 32) cid)))) \<and>
    call_map (fst (do_cleanup ct t)) = (\<lambda>k. Option.bind (call_map ct k) (\<lambda>e. if expired ct t e then None else Some e))"
proof -
  have key: "(n, take (min n 32) cid) = callid_key cid n" by (simp add: callid_key_def)
  show ?thesis
    unfolding key using find_call_map [OF assms, of cid n] call_map_add [OF assms] call_map_learn [OF assms]
      call_map_cleanup [OF assms] by blast
qed

theorem call_table_refines_map_witness:
  "call_map (fst (do_cleanup flow_call 5000)) = (\<lambda>k. None)"
proof -
  have "list_all (expired flow_call 5000) (used_calls flow_call)" by code_simp
  then have "call_map flow_call k = Some e \<Longrightarrow> expired flow_call 5000 e" for k e
    using call_map_Some [OF flow_call_inv] by (simp add: list_all_iff)
  then have "Option.bind (call_map flow_call k) (\<lambda>e. if expired flow_call 5000 e then None else Some e) = None" for k
    by (cases "call_map flow_call k") auto
  then show ?thesis
    using call_table_refines_map [OF flow_call_inv, THEN conjunct2, THEN conjunct2, THEN conjunct2, of 5000] by simp
qed

end
