(* ===== verification/Trigger.thy ===== *)
theory Trigger
  imports Template Calltable
begin

text \<open>
  The triggers of \<open>trigger.cpp\<close>: the \<open>-t\<close> option (\<open>Trigger::add\<close>) and what runs when the call table
  fires one (\<open>Trigger::trigger\<close>).

  A command is the list of its words. Strings have no NUL (they come from \<open>argv\<close>). \<open>fork\<close>, \<open>execv\<close>
  and \<open>strftime\<close> are parameters; the messages are not modelled.
\<close>

section \<open>State and the option argument\<close>

abbreviation COLON :: byte where "COLON \<equiv> 58"

record triggers =
  t_open :: "byte list list list"
  t_close :: "byte list list list"
  t_byname :: "byte list \<rightharpoonup> trigger_kind"
  t_verbosity :: int

definition no_triggers :: triggers where
  "no_triggers = \<lparr>t_open = [], t_close = [], t_byname = Map.empty, t_verbosity = 0\<rparr>"

definition trigger_init :: "triggers \<Rightarrow> triggers" where
  "trigger_init ts = ts\<lparr>t_byname := (t_byname ts)(str ''open'' \<mapsto> Trigger_open, str ''close'' \<mapsto> Trigger_close)\<rparr>"

definition commands_of :: "triggers \<Rightarrow> trigger_kind \<Rightarrow> byte list list list" where
  "commands_of ts k = (case k of Trigger_open \<Rightarrow> t_open ts | Trigger_close \<Rightarrow> t_close ts)"

definition push_command :: "trigger_kind \<Rightarrow> byte list list \<Rightarrow> triggers \<Rightarrow> triggers" where
  "push_command k c ts =
     (case k of Trigger_open \<Rightarrow> ts\<lparr>t_open := t_open ts @ [c]\<rparr> | Trigger_close \<Rightarrow> ts\<lparr>t_close := t_close ts @ [c]\<rparr>)"

text \<open>\<open>getline (ss, field, ':')\<close>: the field, and what is left in the stream.\<close>

fun getline_colon :: "byte list \<Rightarrow> byte list \<times> byte list" where
  "getline_colon [] = ([], [])"
| "getline_colon (c # s) =
     (if c = COLON then ([], s) else let (f, rest) = getline_colon s in (c # f, rest))"

text \<open>\<open>ss >> elem\<close> until it fails.\<close>

definition next_word :: "byte list \<Rightarrow> byte list \<times> byte list" where
  "next_word s = (let s = dropWhile isspace s in
     (takeWhile (\<lambda>c. \<not> isspace c) s, dropWhile (\<lambda>c. \<not> isspace c) s))"

function split_words :: "byte list \<Rightarrow> byte list list" where
  "split_words s = (let (elem, rest) = next_word s in if elem = [] then [] else elem # split_words rest)"
  by pat_completeness auto

termination
proof (relation "measure length")
  fix s elem rest and p :: "byte list \<times> byte list"
  assume "p = next_word s" "(elem, rest) = p" "elem \<noteq> []"
  then have w: "elem @ rest = dropWhile isspace s" by (auto simp: next_word_def Let_def)
  have "length (elem @ rest) \<le> length s" unfolding w by (rule length_dropWhile_le)
  with \<open>elem \<noteq> []\<close> show "(rest, s) \<in> measure length" by (cases elem) auto
qed simp

text \<open>The command an action stands for; other actions stand for none.\<close>

definition action_command :: "byte list \<Rightarrow> byte list \<Rightarrow> byte list list option" where
  "action_command action param =
     (if action = str ''mv'' then Some [str ''/bin/mv'', str ''%.'', param]
      else if action = str ''sh'' then Some [str ''/bin/sh'', str ''-c'', param]
      else if action = str ''exec'' then Some (split_words param)
      else None)"

text \<open>
  \<open>Trigger::add\<close>: \<open>Inl\<close> is the code the program exits with. At verbosity 2 the last command of the
  trigger is printed, which reads \<open>back ()\<close> of a vector that may be empty.
\<close>

definition trigger_add :: "triggers \<Rightarrow> byte list \<Rightarrow> (int + triggers) option" where
  "trigger_add ts s = (
     let (cond, ss) = getline_colon s; (action, ss) = getline_colon ss; (param, ss) = getline_colon ss in
     case t_byname ts cond of
       None \<Rightarrow> Some (Inl 2)
     | Some k \<Rightarrow>
         let ts = (case action_command action param of
                     Some cmd \<Rightarrow> push_command k cmd ts
                   | None \<Rightarrow> ts)
         in if t_verbosity ts \<ge> 2 \<and> commands_of ts k = [] then None else Some (Inr ts))"

section \<open>Firing a trigger\<close>

text \<open>The element of \<open>argv\<close> made from one word of a command. The malloced buffer has 1024 bytes.\<close>

definition trigger_arg ::
  "(byte list \<Rightarrow> int \<Rightarrow> byte list) \<Rightarrow> byte list \<Rightarrow> byte list \<Rightarrow> byte list \<Rightarrow> byte list \<Rightarrow> int \<Rightarrow>
   byte list \<Rightarrow> byte list option" where
  "trigger_arg strftime fn from to callid time j =
     (if j = str ''%.'' then c_str fn
      else if PERCENT \<in> set j then expand_dir_template strftime 1024 (j @ [NUL]) from to callid time
      else Some j)"

definition trigger_argv ::
  "(byte list \<Rightarrow> int \<Rightarrow> byte list) \<Rightarrow> byte list \<Rightarrow> byte list \<Rightarrow> byte list \<Rightarrow> byte list \<Rightarrow> int \<Rightarrow>
   byte list list \<Rightarrow> byte list list option" where
  "trigger_argv strftime fn from to callid time cmd =
     those (map (trigger_arg strftime fn from to callid time) cmd)"

text \<open>
  The loop of \<open>Trigger::trigger\<close>. Its parameters are whether the \<open>k\<close>-th call of \<open>fork\<close> succeeds (calls
  counted with each child's before the rest of its parent's) and whether \<open>execv\<close> replaces the
  process. The result lists what the processes do, counts those that return from the function, and
  continues the count of the calls. A child whose \<open>execv\<close> fails goes on with the loop.
\<close>

datatype process_step = Ran "byte list list" | Exec_failed "byte list list" | Fork_failed

fun trigger_loop ::
  "(byte list list \<Rightarrow> byte list list option) \<Rightarrow> (nat \<Rightarrow> bool) \<Rightarrow> (byte list list \<Rightarrow> bool) \<Rightarrow>
   byte list list list \<Rightarrow> nat \<Rightarrow> (process_step list \<times> nat \<times> nat) option" where
  "trigger_loop argv_of fork_ok execv_ok [] k = Some ([], 1, k)"
| "trigger_loop argv_of fork_ok execv_ok (i # t) k =
     (if \<not> fork_ok k then do {
        (steps, n, k) \<leftarrow> trigger_loop argv_of fork_ok execv_ok t (Suc k);
        Some (Fork_failed # steps, n, k) }
      else do {
        argv \<leftarrow> argv_of i;
        (child, n, k) \<leftarrow>
          (if execv_ok argv then Some ([Ran argv], 0, Suc k)
           else do {
             (steps, n, k) \<leftarrow> trigger_loop argv_of fork_ok execv_ok t (Suc k);
             Some (Exec_failed argv # steps, n, k) });
        (steps, n', k) \<leftarrow> trigger_loop argv_of fork_ok execv_ok t k;
        Some (child @ steps, n + n', k) })"

definition trigger_trigger ::
  "(byte list \<Rightarrow> int \<Rightarrow> byte list) \<Rightarrow> (nat \<Rightarrow> bool) \<Rightarrow> (byte list list \<Rightarrow> bool) \<Rightarrow> byte list list list \<Rightarrow>
   byte list \<Rightarrow> byte list \<Rightarrow> byte list \<Rightarrow> byte list \<Rightarrow> int \<Rightarrow> (process_step list \<times> nat \<times> nat) option" where
  "trigger_trigger strftime fork_ok execv_ok t fn from to callid time =
     trigger_loop (trigger_argv strftime fn from to callid time) fork_ok execv_ok t 0"

text \<open>The processes that an effect of the call table starts; other effects start none.\<close>

definition fire_effect ::
  "(byte list \<Rightarrow> int \<Rightarrow> byte list) \<Rightarrow> (nat \<Rightarrow> bool) \<Rightarrow> (byte list list \<Rightarrow> bool) \<Rightarrow> triggers \<Rightarrow> effect \<Rightarrow>
   (process_step list \<times> nat \<times> nat) option" where
  "fire_effect strftime fork_ok execv_ok ts fx =
     (case fx of
        Fire k fn from to callid time \<Rightarrow>
          trigger_trigger strftime fork_ok execv_ok (commands_of ts k) fn from to callid time
      | _ \<Rightarrow> Some ([], 1, 0))"

section \<open>Parsing\<close>

lemma getline_colon_field: "COLON \<notin> set f \<Longrightarrow> getline_colon (f @ COLON # s) = (f, s)"
  by (induction f) auto

lemma getline_colon_last: "COLON \<notin> set f \<Longrightarrow> getline_colon f = (f, [])"
  by (induction f) auto

lemma getline_colon_split:
  "getline_colon s = (takeWhile (\<lambda>c. c \<noteq> COLON) s, tl (dropWhile (\<lambda>c. c \<noteq> COLON) s))"
  by (induction s) auto

declare split_words.simps [simp del]

definition word :: "byte list \<Rightarrow> bool" where
  "word w \<longleftrightarrow> w \<noteq> [] \<and> (\<forall>c\<in>set w. \<not> isspace c)"

lemma split_words_spaces: "(\<forall>c\<in>set s. isspace c) \<Longrightarrow> split_words s = []"
  by (subst split_words.simps) (simp add: next_word_def Let_def dropWhile_eq_Nil_conv [THEN iffD2])

lemma split_words_word:
  assumes "word w" "isspace c"
  shows "split_words (w @ c # s) = w # split_words (c # s)"
proof -
  have "dropWhile isspace (w @ c # s) = w @ c # s" using assms(1) by (cases w) (auto simp: word_def)
  then have "next_word (w @ c # s) = (w, c # s)"
    using assms by (simp add: next_word_def word_def takeWhile_append dropWhile_append)
  then show ?thesis using assms(1) by (subst split_words.simps) (simp add: word_def)
qed

lemma split_words_skip: "isspace c \<Longrightarrow> split_words (c # s) = split_words s"
  by (subst (1 2) split_words.simps) (simp add: next_word_def)

text \<open>Words separated by single spaces.\<close>

definition join_words :: "byte list list \<Rightarrow> byte list" where
  "join_words ws = concat (map (\<lambda>w. w @ [SP]) ws)"

lemma split_join_words: "list_all word ws \<Longrightarrow> split_words (join_words ws) = ws"
proof (induction ws)
  case Nil
  then show ?case by (simp add: join_words_def split_words_spaces)
next
  case (Cons w ws)
  have sp: "isspace SP" by (simp add: isspace_def)
  have "split_words (w @ SP # join_words ws) = w # split_words (SP # join_words ws)"
    using split_words_word [OF _ sp] Cons.prems by simp
  also have "\<dots> = w # ws" using Cons split_words_skip [OF sp] by simp
  finally show ?case by (simp add: join_words_def)
qed

definition trigger_names :: "byte list \<rightharpoonup> trigger_kind" where
  "trigger_names = [str ''open'' \<mapsto> Trigger_open, str ''close'' \<mapsto> Trigger_close]"

lemma trigger_init_names: "t_byname (trigger_init no_triggers) = trigger_names"
  by (simp add: trigger_init_def no_triggers_def trigger_names_def)

lemma commands_push [simp]: "commands_of (push_command k c ts) k' = commands_of ts k' @ (if k' = k then [c] else [])"
  by (cases k; cases k') (simp_all add: commands_of_def push_command_def)

lemma push_command_frame [simp]:
  "t_verbosity (push_command k c ts) = t_verbosity ts" "t_byname (push_command k c ts) = t_byname ts"
  by (cases k; simp add: push_command_def)+

text \<open>
  C33: the grammar of \<open>-t\<close>. For \<open>open\<close> or \<open>close\<close>, \<open>exec\<close> with words written one space apart adds
  exactly these words as the command, \<open>sh\<close> adds \<open>/bin/sh -c\<close> and \<open>mv\<close> adds \<open>/bin/mv %.\<close>, each with
  the parameter; commands of a trigger are kept in the order they were given, and the other
  trigger's are not touched.
\<close>

theorem trigger_add_commands:
  assumes "t_byname ts = trigger_names" "cond \<in> {str ''open'', str ''close''}"
    and "action \<in> {str ''mv'', str ''sh'', str ''exec''}" "COLON \<notin> set param"
    and "action = str ''exec'' \<longrightarrow> list_all word ws \<and> param = join_words ws"
  shows "\<exists>ts'. trigger_add ts (cond @ [COLON] @ action @ [COLON] @ param) = Some (Inr ts') \<and>
    t_byname ts' = trigger_names \<and>
    (\<forall>k. commands_of ts' k = commands_of ts k @
      (if trigger_names cond = Some k then
        [if action = str ''mv'' then [str ''/bin/mv'', str ''%.'', param]
         else if action = str ''sh'' then [str ''/bin/sh'', str ''-c'', param] else ws] else []))"
proof -
  have names: "COLON \<notin> set cond" "COLON \<notin> set action" using assms(2,3) by auto
  obtain k where k: "trigger_names cond = Some k" using assms(2) by (auto simp: trigger_names_def)
  have parse: "getline_colon (cond @ [COLON] @ action @ [COLON] @ param) = (cond, action @ [COLON] @ param)"
    "getline_colon (action @ [COLON] @ param) = (action, param)" "getline_colon param = (param, [])"
    using names assms(4) getline_colon_field getline_colon_last by auto
  let ?cmd = "if action = str ''mv'' then [str ''/bin/mv'', str ''%.'', param]
         else if action = str ''sh'' then [str ''/bin/sh'', str ''-c'', param] else ws"
  have "action_command action param = Some ?cmd"
    using assms(3,5) split_join_words by (auto simp: action_command_def simp del: str_Cons)
  then have "trigger_add ts (cond @ [COLON] @ action @ [COLON] @ param) = Some (Inr (push_command k ?cmd ts))"
    using assms(1) k unfolding trigger_add_def Let_def parse prod.case by (simp del: str_Cons)
  then show ?thesis using assms(1) k by (auto simp del: str_Cons)
qed

theorem trigger_add_commands_witness:
  "\<exists>ts'. trigger_add (trigger_init no_triggers) (str ''close'' @ [COLON] @ str ''exec'' @ [COLON] @ str ''/bin/x %i '') = Some (Inr ts') \<and>
    commands_of ts' Trigger_close = [[str ''/bin/x'', str ''%i'']] \<and> commands_of ts' Trigger_open = []"
proof -
  have words: "list_all word [str ''/bin/x'', str ''%i'']" "str ''/bin/x %i '' = join_words [str ''/bin/x'', str ''%i'']"
    "COLON \<notin> set (str ''/bin/x %i '')"
    unfolding word_def by code_simp+
  have names: "trigger_names (str ''close'') = Some Trigger_close" by code_simp
  have none: "commands_of (trigger_init no_triggers) k = []" for k
    by (cases k) (simp_all add: commands_of_def trigger_init_def no_triggers_def)
  have ne: "str ''exec'' \<noteq> str ''mv''" "str ''exec'' \<noteq> str ''sh''" by code_simp+
  have "str ''close'' \<in> {str ''open'', str ''close''}" "str ''exec'' \<in> {str ''mv'', str ''sh'', str ''exec''}" by blast+
  from trigger_add_commands [OF trigger_init_names this words(3), of "[str ''/bin/x'', str ''%i'']"] words(1,2)
  obtain ts' where "trigger_add (trigger_init no_triggers)
      (str ''close'' @ [COLON] @ str ''exec'' @ [COLON] @ str ''/bin/x %i '') = Some (Inr ts')"
    "\<forall>k. commands_of ts' k = (if Trigger_close = k then [[str ''/bin/x'', str ''%i'']] else [])"
    unfolding names none using ne by auto
  then show ?thesis by (metis trigger_kind.distinct(1))
qed

text \<open>
  The parameter of \<open>-t\<close> ends at its first colon. Whatever follows a third colon is dropped without
  a message, so shell code or a path with a colon is cut short.
\<close>

theorem trigger_param_cut_at_colon:
  assumes "COLON \<notin> set cond" "COLON \<notin> set action"
  shows "trigger_add ts (cond @ [COLON] @ action @ [COLON] @ param) =
    trigger_add ts (cond @ [COLON] @ action @ [COLON] @ takeWhile (\<lambda>c. c \<noteq> COLON) param)"
proof -
  have "COLON \<notin> set (takeWhile (\<lambda>c. c \<noteq> COLON) param)" by (auto dest: set_takeWhileD)
  then have "takeWhile (\<lambda>c. c \<noteq> COLON) (takeWhile (\<lambda>c. c \<noteq> COLON) param) = takeWhile (\<lambda>c. c \<noteq> COLON) param"
    by (simp add: takeWhile_eq_all_conv)
  then show ?thesis
    using getline_colon_field [OF assms(1)] getline_colon_field [OF assms(2)]
    by (simp add: trigger_add_def Let_def getline_colon_split [of param]
        getline_colon_split [of "takeWhile (\<lambda>c. c \<noteq> COLON) param"])
qed

theorem trigger_param_cut_at_colon_witness:
  "trigger_add ts (str ''close'' @ [COLON] @ str ''sh'' @ [COLON] @ str ''curl http://h/'') =
   trigger_add ts (str ''close'' @ [COLON] @ str ''sh'' @ [COLON] @ str ''curl http'')"
proof -
  have "takeWhile (\<lambda>c. c \<noteq> COLON) (str ''curl http://h/'') = str ''curl http''" by code_simp
  moreover have "COLON \<notin> set (str ''close'')" "COLON \<notin> set (str ''sh'')" by code_simp+
  ultimately show ?thesis using trigger_param_cut_at_colon by metis
qed

text \<open>
  What \<open>Trigger::add\<close> does with a bad argument. It exits, with code 2, exactly for a condition
  that is not a trigger; an action it does not know only prints a message, and at verbosity 2 then
  reads the last command of a trigger that has none (undefined behaviour).
\<close>

theorem trigger_add_outcomes:
  "(trigger_add ts s = Some (Inl code) \<longleftrightarrow> code = 2 \<and> t_byname ts (fst (getline_colon s)) = None) \<and>
   (trigger_add ts s = None \<longleftrightarrow>
     (\<exists>k. t_byname ts (fst (getline_colon s)) = Some k \<and> t_verbosity ts \<ge> 2 \<and> commands_of ts k = [] \<and>
       fst (getline_colon (snd (getline_colon s))) \<notin> {str ''mv'', str ''sh'', str ''exec''}))"
  by (auto simp: trigger_add_def Let_def action_command_def case_prod_beta' simp del: str_Cons
      split: option.split if_split_asm)

section \<open>Processes\<close>

lemma those_Cons: "those (x # xs) = Some ys \<longleftrightarrow> (\<exists>y ys'. x = Some y \<and> those xs = Some ys' \<and> ys = y # ys')"
  by (auto split: option.split)

lemma trigger_loop_runs:
  assumes "those (map argv_of t) = Some argvs" "\<forall>k. fork_ok k" "list_all execv_ok argvs"
  shows "trigger_loop argv_of fork_ok execv_ok t k = Some (map Ran argvs, 1, k + length t)"
  using assms(1,3)
proof (induction t arbitrary: k argvs)
  case (Cons i t)
  then show ?case using assms(2) by (auto simp: those_Cons simp del: those.simps)
qed simp

lemma trigger_loop_exec_fails:
  assumes "those (map argv_of t) = Some argvs" "\<forall>k. fork_ok k" "list_all (\<lambda>a. \<not> execv_ok a) argvs"
  shows "\<exists>steps. trigger_loop argv_of fork_ok execv_ok t k = Some (steps, 2 ^ length t, k + 2 ^ length t - 1)"
  using assms(1,3)
proof (induction t arbitrary: k argvs)
  case (Cons i t)
  from Cons.prems obtain a argvs' where a: "argv_of i = Some a" "those (map argv_of t) = Some argvs'"
    "argvs = a # argvs'" by (auto simp: those_Cons simp del: those.simps)
  then have fails: "\<not> execv_ok a" "list_all (\<lambda>a. \<not> execv_ok a) argvs'" using Cons.prems(2) by simp_all
  obtain s1 where s1: "trigger_loop argv_of fork_ok execv_ok t (Suc k) = Some (s1, 2 ^ length t, Suc k + 2 ^ length t - 1)"
    using Cons.IH [OF a(2) fails(2)] by blast
  obtain s2 where s2: "trigger_loop argv_of fork_ok execv_ok t (Suc k + 2 ^ length t - 1) =
      Some (s2, 2 ^ length t, Suc k + 2 ^ length t - 1 + 2 ^ length t - 1)"
    using Cons.IH [OF a(2) fails(2)] by blast
  have "Suc k + 2 ^ length t - 1 + 2 ^ length t - 1 = k + 2 ^ Suc (length t) - 1" by simp
  moreover have "fork_ok k" using assms(2) by blast
  ultimately show ?case using s1 s2 a(1) fails(1) by simp
qed simp

text \<open>
  C35: a trigger runs each of its commands once, in their order, and the program goes on as one process,
  provided that every \<open>fork\<close> and every \<open>execv\<close> succeeds. But when no \<open>execv\<close> succeeds (a program that
  is not there), each child stays in the loop and then returns into the capture: \<open>n\<close> commands leave
  \<open>2 ^ n\<close> processes that all go on capturing.
\<close>

theorem trigger_processes:
  assumes "those (map (trigger_argv strftime fn from to callid time) t) = Some argvs" "\<forall>k. fork_ok k"
  shows "(list_all execv_ok argvs \<longrightarrow>
      trigger_trigger strftime fork_ok execv_ok t fn from to callid time = Some (map Ran argvs, 1, length t)) \<and>
    (list_all (\<lambda>a. \<not> execv_ok a) argvs \<longrightarrow>
      (\<exists>steps. trigger_trigger strftime fork_ok execv_ok t fn from to callid time =
        Some (steps, 2 ^ length t, 2 ^ length t - 1)))"
  using trigger_loop_runs [OF assms(1), where fork_ok = fork_ok and execv_ok = execv_ok and k = 0]
    trigger_loop_exec_fails [OF assms(1), where fork_ok = fork_ok and execv_ok = execv_ok and k = 0] assms(2)
  by (simp add: trigger_trigger_def)

theorem trigger_processes_witness:
  "\<exists>steps. trigger_trigger (\<lambda>f t. f) (\<lambda>k. True) (\<lambda>a. False) [[str ''/bin/a''], [str ''/bin/b'']]
     [NUL] [NUL] [NUL] [NUL] 0 = Some (steps, 4, 3)"
proof -
  have argvs: "those (map (trigger_argv (\<lambda>f t. f) [NUL] [NUL] [NUL] [NUL] 0) [[str ''/bin/a''], [str ''/bin/b'']]) =
      Some [[str ''/bin/a''], [str ''/bin/b'']]" by code_simp
  show ?thesis
    using trigger_processes [OF argvs, of "\<lambda>k. True" "\<lambda>a. False"] by simp
qed

section \<open>What the commands see of a call\<close>

lemma c_str_append_left: "c_str xs = Some s \<Longrightarrow> c_str (xs @ ys) = Some s"
  by (induction xs arbitrary: s) (auto split: if_split_asm)

lemma c_str_append_right: "NUL \<notin> set xs \<Longrightarrow> c_str (xs @ ys) = map_option ((@) xs) (c_str ys)"
  by (induction xs) (auto simp: option.map_comp comp_def map_option_case split: option.split)

text \<open>
  C34: \<open>open:mv:DIR\<close> cannot work: the open trigger fires when the call is added to the table, before its
  file is opened and named, so \<open>/bin/mv\<close> runs with an empty file name.
\<close>

theorem open_trigger_has_no_file_name:
  assumes "ct_inv ct" "calltable_add ct cid n from to time = Some (ct', idx, fx)"
    and "commands_of ts Trigger_open = [[str ''/bin/mv'', str ''%.'', dir]]" "PERCENT \<notin> set dir"
    and "fork_ok 0" "execv_ok [str ''/bin/mv'', [], dir]"
  shows "\<exists>e. fx = [e] \<and>
    fire_effect strftime fork_ok execv_ok ts e = Some ([Ran [str ''/bin/mv'', [], dir]], 1, 1)"
  using assms(1,2)
proof (cases rule: calltable_add_cases)
  case (1 tab e)
  have lits: "c_str (replicate 128 0) = Some []" "PERCENT \<notin> set (str ''/bin/mv'')" "str ''/bin/mv'' \<noteq> str ''%.''"
    "PERCENT \<in> set (str ''%.'')"
    by code_simp+
  have args: "trigger_arg strftime (replicate 128 0) f t i time (str ''/bin/mv'') = Some (str ''/bin/mv'')"
    "trigger_arg strftime (replicate 128 0) f t i time (str ''%.'') = Some []"
    "trigger_arg strftime (replicate 128 0) f t i time dir = Some dir" for f t i
    using assms(4) lits by (auto simp: trigger_arg_def simp del: str_Cons)
  have "trigger_argv strftime (replicate 128 0) f t i time [str ''/bin/mv'', str ''%.'', dir] =
      Some [str ''/bin/mv'', [], dir]" for f t i
    unfolding trigger_argv_def list.map args by simp
  then show ?thesis
    using 1 assms(3,5,6) by (simp add: fire_effect_def trigger_trigger_def del: str_Cons str_Nil)
qed

theorem open_trigger_has_no_file_name_witness:
  "\<exists>ct' idx e. calltable_add new_calltable (str ''a@b'') 3 (replicate 16 0) (replicate 16 0) 0 = Some (ct', idx, [e]) \<and>
    fire_effect (\<lambda>f t. f) (\<lambda>k. True) (\<lambda>a. True)
      (push_command Trigger_open [str ''/bin/mv'', str ''%.'', str ''/tmp''] no_triggers) e =
    Some ([Ran [str ''/bin/mv'', [], str ''/tmp'']], 1, 1)"
proof -
  have "calltable_add new_calltable (str ''a@b'') 3 (replicate 16 0) (replicate 16 0) 0 \<noteq> None"
    by (rule calltable_add_defined [OF new_calltable_inv]) simp_all
  then obtain ct' idx fx where add: "calltable_add new_calltable (str ''a@b'') 3 (replicate 16 0) (replicate 16 0) 0 = Some (ct', idx, fx)"
    by auto
  have "commands_of no_triggers Trigger_open = []" by (simp add: commands_of_def no_triggers_def)
  then have cmds: "commands_of (push_command Trigger_open [str ''/bin/mv'', str ''%.'', str ''/tmp''] no_triggers) Trigger_open =
      [[str ''/bin/mv'', str ''%.'', str ''/tmp'']]" by simp
  have dir: "PERCENT \<notin> set (str ''/tmp'')" by code_simp
  show ?thesis
    using open_trigger_has_no_file_name [OF new_calltable_inv add cmds dir, of "\<lambda>k. True" "\<lambda>a. True" "\<lambda>f t. f"] add
    by (auto simp del: str_Cons)
qed

text \<open>
  A caller of 16 bytes or more is copied without its end: the \<open>%f\<close> of a trigger is its first 16
  bytes followed by the callee.
\<close>

theorem long_caller_runs_into_callee:
  assumes "ct_inv ct" "calltable_add ct cid n from to time = Some (ct', idx, fx)"
    and "NUL \<notin> set (take 16 from)" "c_str (take 16 to) = Some callee_str"
    and "length (strftime (map sanitize (take 16 from @ callee_str)) time) < 1024"
  shows "\<exists>fn f t i. fx = [Fire Trigger_open fn f t i time] \<and>
    trigger_arg strftime fn f t i time (str ''%f'') = Some (strftime (map sanitize (take 16 from @ callee_str)) time)"
  using assms(1,2)
proof (cases rule: calltable_add_cases)
  case (1 tab e)
  have caller: "c_str (caller_mem e) = Some (take 16 from @ callee_str)"
    using 1 assms(3) c_str_append_left [OF assms(4)]
    by (simp add: caller_mem_def callee_mem_def c_str_append_right)
  have "length callee_str \<le> length (take 16 to)" using c_str_length [OF assms(4)] by simp
  moreover have "min (length from) 16 \<le> 16" by simp
  ultimately have len: "length (take 16 from @ callee_str) < 258" unfolding length_append length_take by linarith
  define x where "x = take 16 from @ callee_str"
  have "NUL \<notin> set (map sanitize x)" using sanitize_safe(1) by auto
  from c_str_append_NUL [OF this]
  have "trigger_arg strftime fn (caller_mem e) t i time (str ''%f'') = Some (strftime (map sanitize x) time)" for fn t i
    using caller len assms(5) unfolding x_def [symmetric]
    by (simp add: trigger_arg_def expand_dir_template_def expand_arg_def put_char_def Let_def)
  then show ?thesis using 1 by (auto simp: x_def)
qed

theorem long_caller_runs_into_callee_witness:
  "\<exists>ct' idx fn f t i. calltable_add new_calltable (str ''a@b'') 3 (replicate 17 65) (str ''22'' @ replicate 14 0) 0 =
      Some (ct', idx, [Fire Trigger_open fn f t i 0]) \<and>
    trigger_arg (\<lambda>f t. f) fn f t i 0 (str ''%f'') = Some (replicate 16 65 @ str ''22'')"
proof -
  have "calltable_add new_calltable (str ''a@b'') 3 (replicate 17 65) (str ''22'' @ replicate 14 0) 0 \<noteq> None"
    by (rule calltable_add_defined [OF new_calltable_inv]) simp_all
  then obtain ct' idx fx where add: "calltable_add new_calltable (str ''a@b'') 3 (replicate 17 65) (str ''22'' @ replicate 14 0) 0 = Some (ct', idx, fx)"
    by auto
  have args: "NUL \<notin> set (take 16 (replicate 17 (65 :: byte)))"
    "c_str (take 16 (str ''22'' @ replicate 14 0)) = Some (str ''22'')"
    by code_simp+
  have "sanitize 65 = 65" "map sanitize (str ''22'') = str ''22''" by code_simp+
  then have expanded: "map sanitize (take 16 (replicate 17 65) @ str ''22'') = replicate 16 65 @ str ''22''"
    by (simp del: str_Cons)
  have "length (str ''22'') < 1008" by simp
  then show ?thesis
    using long_caller_runs_into_callee [OF new_calltable_inv add args(1,2), of "\<lambda>f t. f"] add
    unfolding expanded by (auto simp del: str_Cons)
qed

end
