(* ===== verification/Endian.thy ===== *)
theory Endian
  imports Prelude
begin

text \<open>
  Byte order: the macros of \<open>pcapsipdump_endian.h\<close> on a little-endian host and the C library's
  \<open>htons\<close>, \<open>ntohl\<close>, \<open>htonl\<close>. A multi-byte field of a packet is loaded as the host reads it
  (\<open>ld16\<close>, \<open>ld32\<close>) and swapped exactly where the code swaps it.
\<close>

definition CONST_BSWAP16 :: "u16 \<Rightarrow> u16" where
  "CONST_BSWAP16 x = (drop_bit 8 x AND 0x00FF) OR (push_bit 8 x AND 0xFF00)"

definition HTONS :: "u16 \<Rightarrow> u16" where
  "HTONS x = CONST_BSWAP16 x"

definition htons :: "u16 \<Rightarrow> u16" where
  "htons x = CONST_BSWAP16 x"

definition ntohl :: "u32 \<Rightarrow> u32" where
  "ntohl x = (drop_bit 24 x AND 0xFF) OR (drop_bit 8 x AND 0xFF00) OR
             (push_bit 8 x AND 0xFF0000) OR (push_bit 24 x AND 0xFF000000)"

abbreviation htonl :: "u32 \<Rightarrow> u32" where
  "htonl \<equiv> ntohl"

lemma bswap16_masks: "(0x00FF :: u16) = mask 8" "(0xFF00 :: u16) = push_bit 8 (mask 8)"
  by (simp_all add: mask_eq_exp_minus_1)

lemma bit_CONST_BSWAP16:
  "n < 16 \<Longrightarrow> bit (CONST_BSWAP16 x) n \<longleftrightarrow> bit x (if n < 8 then n + 8 else n - 8)"
  unfolding CONST_BSWAP16_def bswap16_masks
  by (auto simp: bit_simps add.commute)

lemma CONST_BSWAP16_involutive [simp]: "CONST_BSWAP16 (CONST_BSWAP16 x) = x"
  by (rule bit_word_eqI) (auto simp: bit_CONST_BSWAP16)

lemma htons_involutive [simp]: "htons (htons x) = x"
  by (simp add: htons_def)

lemma HTONS_inject: "HTONS x = HTONS y \<longleftrightarrow> x = y"
  by (metis HTONS_def CONST_BSWAP16_involutive)

lemma htons_eq_HTONS: "htons x = HTONS x"
  by (simp add: htons_def HTONS_def)

text \<open>A big-endian 16-bit field of the packet, read the way the code reads it.\<close>

definition be16 :: "byte \<Rightarrow> byte \<Rightarrow> u16" where
  "be16 hi lo = push_bit 8 (ucast hi) OR ucast lo"

lemma htons_load: "htons (ucast a OR push_bit 8 (ucast b)) = be16 a b"
  by (rule bit_word_eqI)
    (auto simp: htons_def be16_def bit_CONST_BSWAP16 bit_simps
      dest: bit_imp_le_length)

lemma htons_ld16:
  "i + 2 \<le> length m \<Longrightarrow> map_option htons (ld16 m i) = Some (be16 (m ! i) (m ! (i + 1)))"
  by (simp add: ld16_def mem_simps htons_load)

section \<open>Which byte order the macros choose\<close>

text \<open>
  The preprocessor part of \<open>pcapsipdump_endian.h\<close>, on macros that stand for numbers. An identifier
  that is not defined counts as 0 in \<open>#if\<close>. \<open>param_h\<close> is what \<open>sys/param.h\<close> defines, \<open>None\<close> is \<open>#error\<close>.
\<close>

type_synonym macros = "string \<rightharpoonup> int"

definition macro :: "macros \<Rightarrow> string \<Rightarrow> int" where
  "macro m x = (case m x of None \<Rightarrow> 0 | Some v \<Rightarrow> v)"

definition defined :: "macros \<Rightarrow> string \<Rightarrow> bool" where
  "defined m x \<longleftrightarrow> m x \<noteq> None"

definition define_endian :: "macros \<Rightarrow> int \<Rightarrow> int \<Rightarrow> int \<Rightarrow> macros" where
  "define_endian m little big order =
     m(''__LITTLE_ENDIAN'' \<mapsto> little, ''__BIG_ENDIAN'' \<mapsto> big, ''__BYTE_ORDER'' \<mapsto> order)"

definition detect_endian :: "(macros \<Rightarrow> macros) \<Rightarrow> macros \<Rightarrow> macros option" where
  "detect_endian param_h m = (
     let m = (if macro m ''sparc'' \<noteq> 0 then m(''_BIG_ENDIAN'' \<mapsto> 1) else param_h m) in
     if \<not> macro m ''__BYTE_ORDER'' = macro m ''__LITTLE_ENDIAN'' \<and>
        \<not> macro m ''__BYTE_ORDER'' = macro m ''__BIG_ENDIAN'' then
       if defined m ''BYTE_ORDER'' \<and> defined m ''LITTLE_ENDIAN'' \<and> defined m ''BIG_ENDIAN'' \<and>
          (macro m ''BYTE_ORDER'' = macro m ''LITTLE_ENDIAN'' \<or> macro m ''BYTE_ORDER'' = macro m ''BIG_ENDIAN'')
       then Some (define_endian m (macro m ''LITTLE_ENDIAN'') (macro m ''BIG_ENDIAN'') (macro m ''BYTE_ORDER''))
       else if defined m ''_BYTE_ORDER'' \<and> defined m ''_LITTLE_ENDIAN'' \<and> defined m ''_BIG_ENDIAN'' \<and>
          (macro m ''_BYTE_ORDER'' = macro m ''_LITTLE_ENDIAN'' \<or> macro m ''_BYTE_ORDER'' = macro m ''_BIG_ENDIAN'')
       then Some (define_endian m (macro m ''_LITTLE_ENDIAN'') (macro m ''_BIG_ENDIAN'') (macro m ''_BYTE_ORDER''))
       else if \<not> defined m ''_BYTE_ORDER'' \<and> defined m ''_LITTLE_ENDIAN'' then Some (define_endian m 1234 4321 4321)
       else if \<not> defined m ''_BYTE_ORDER'' \<and> defined m ''_BIG_ENDIAN'' then Some (define_endian m 1234 4321 1234)
       else None
     else Some m)"

definition HTONS_macro :: "macros \<Rightarrow> u16 \<Rightarrow> u16" where
  "HTONS_macro m x = (if macro m ''__BYTE_ORDER'' = macro m ''__LITTLE_ENDIAN'' then CONST_BSWAP16 x else x)"

text \<open>Where the C library defines the three macros as on little-endian Linux, \<open>HTONS\<close> is the swap.\<close>

lemma detect_endian_linux:
  assumes "macro m ''sparc'' = 0" "macro (param_h m) ''__BYTE_ORDER'' = 1234" "macro (param_h m) ''__LITTLE_ENDIAN'' = 1234"
  shows "detect_endian param_h m = Some (param_h m) \<and> HTONS_macro (param_h m) = HTONS"
  using assms by (auto simp: detect_endian_def HTONS_macro_def HTONS_def)

text \<open>
  Where the C library defines none of them, the detection is skipped, because 0 equals 0, and the
  host is taken for little-endian: also on SPARC, which defines \<open>_BIG_ENDIAN\<close> to be detected.
\<close>

lemma detect_endian_undefined:
  assumes "macro m ''sparc'' \<noteq> 0" "m ''__BYTE_ORDER'' = None" "m ''__LITTLE_ENDIAN'' = None"
  shows "detect_endian param_h m = Some (m(''_BIG_ENDIAN'' \<mapsto> 1)) \<and>
    HTONS_macro (m(''_BIG_ENDIAN'' \<mapsto> 1)) = CONST_BSWAP16"
  using assms by (auto simp: detect_endian_def HTONS_macro_def macro_def)

lemma detect_endian_undefined_witness:
  "HTONS_macro (the (detect_endian (\<lambda>m. m) [''sparc'' \<mapsto> 1])) 0x0800 = 0x0008"
proof -
  have "HTONS_macro ([''sparc'' \<mapsto> 1](''_BIG_ENDIAN'' \<mapsto> 1)) = CONST_BSWAP16 \<and>
      detect_endian (\<lambda>m. m) [''sparc'' \<mapsto> 1] = Some ([''sparc'' \<mapsto> 1](''_BIG_ENDIAN'' \<mapsto> 1))"
    using detect_endian_undefined [of "[''sparc'' \<mapsto> 1]" "\<lambda>m. m"] by (simp add: macro_def)
  moreover have "CONST_BSWAP16 0x0800 = 0x0008" by code_simp
  ultimately show ?thesis by simp
qed

end
