(* ===== verification/Headers.thy ===== *)
theory Headers
  imports Endian
begin

text \<open>
  The header structures of \<open>pcapsipdump.h\<close> as accessors on the packet memory, and the link-layer
  decoding of \<open>pcapsipdump_lib.cpp\<close>. The memory \<open>m\<close> starts at \<open>pkt_data\<close>; a header pointer is an
  index into it. Bit fields are laid out as a little-endian compiler lays them out (the first
  member in the low bits).
\<close>

section \<open>Structures\<close>

definition sizeof_iphdr :: nat where "sizeof_iphdr = 20"
definition sizeof_ipv6hdr :: nat where "sizeof_ipv6hdr = 40"
definition sizeof_udphdr :: nat where "sizeof_udphdr = 8"
definition sizeof_tcphdr :: nat where "sizeof_tcphdr = 20"
definition sizeof_ether_header :: nat where "sizeof_ether_header = 14"

lemmas sizeof_defs = sizeof_iphdr_def sizeof_ipv6hdr_def sizeof_udphdr_def sizeof_tcphdr_def
  sizeof_ether_header_def

definition IPPROTO_TCP :: byte where "IPPROTO_TCP = 6"
definition IPPROTO_UDP :: byte where "IPPROTO_UDP = 17"
definition IPPROTO_FRAGMENT :: byte where "IPPROTO_FRAGMENT = 44"

lemmas ipproto_defs = IPPROTO_TCP_def IPPROTO_UDP_def IPPROTO_FRAGMENT_def

text \<open>\<open>version\<close> is the high nibble of the first byte in both IP headers.\<close>

definition ip_version :: "mem \<Rightarrow> nat \<Rightarrow> byte option" where
  "ip_version m ip = map_option (drop_bit 4) (rd8 m ip)"

definition iphdr_id :: "mem \<Rightarrow> nat \<Rightarrow> u16 option" where
  "iphdr_id m ip = ld16 m (ip + 4)"

definition iphdr_frag_off :: "mem \<Rightarrow> nat \<Rightarrow> u16 option" where
  "iphdr_frag_off m ip = ld16 m (ip + 6)"

definition iphdr_protocol :: "mem \<Rightarrow> nat \<Rightarrow> byte option" where
  "iphdr_protocol m ip = rd8 m (ip + 9)"

definition iphdr_saddr :: "mem \<Rightarrow> nat \<Rightarrow> u32 option" where
  "iphdr_saddr m ip = ld32 m (ip + 12)"

definition iphdr_daddr :: "mem \<Rightarrow> nat \<Rightarrow> u32 option" where
  "iphdr_daddr m ip = ld32 m (ip + 16)"

definition ipv6hdr_nexthdr :: "mem \<Rightarrow> nat \<Rightarrow> byte option" where
  "ipv6hdr_nexthdr m ip = rd8 m (ip + 6)"

definition ipv6hdr_saddr :: "mem \<Rightarrow> nat \<Rightarrow> nat \<Rightarrow> u32 option" where
  "ipv6hdr_saddr m ip k = ld32 m (ip + 8 + 4 * k)"

definition ipv6hdr_daddr :: "mem \<Rightarrow> nat \<Rightarrow> nat \<Rightarrow> u32 option" where
  "ipv6hdr_daddr m ip k = ld32 m (ip + 24 + 4 * k)"

definition fraghdr_nexthdr :: "mem \<Rightarrow> nat \<Rightarrow> byte option" where
  "fraghdr_nexthdr m frag = rd8 m frag"

definition fraghdr_offset_and_more :: "mem \<Rightarrow> nat \<Rightarrow> u16 option" where
  "fraghdr_offset_and_more m frag = ld16 m (frag + 2)"

definition fraghdr_id :: "mem \<Rightarrow> nat \<Rightarrow> u32 option" where
  "fraghdr_id m frag = ld32 m (frag + 4)"

definition udphdr_source :: "mem \<Rightarrow> nat \<Rightarrow> u16 option" where
  "udphdr_source m udp = ld16 m udp"

definition udphdr_dest :: "mem \<Rightarrow> nat \<Rightarrow> u16 option" where
  "udphdr_dest m udp = ld16 m (udp + 2)"

definition tcphdr_doff :: "mem \<Rightarrow> nat \<Rightarrow> byte option" where
  "tcphdr_doff m tcp = map_option (drop_bit 4) (rd8 m (tcp + 12))"

section \<open>Address hashes\<close>

definition hsaddr :: "mem \<Rightarrow> nat \<Rightarrow> u32 option" where
  "hsaddr m p = do {
     v \<leftarrow> ip_version m p;
     if v = 4 then iphdr_saddr m p
     else do {
       a \<leftarrow> ipv6hdr_saddr m p 0; b \<leftarrow> ipv6hdr_saddr m p 1;
       c \<leftarrow> ipv6hdr_saddr m p 2; d \<leftarrow> ipv6hdr_saddr m p 3;
       Some (a + b * 19 + c * 37 + d * 109) } }"

definition hdaddr :: "mem \<Rightarrow> nat \<Rightarrow> u32 option" where
  "hdaddr m p = do {
     v \<leftarrow> ip_version m p;
     if v = 4 then iphdr_daddr m p
     else do {
       a \<leftarrow> ipv6hdr_daddr m p 0; b \<leftarrow> ipv6hdr_daddr m p 1;
       c \<leftarrow> ipv6hdr_daddr m p 2; d \<leftarrow> ipv6hdr_daddr m p 3;
       Some (a + b * 19 + c * 37 + d * 109) } }"

section \<open>Link layer\<close>

text \<open>
  \<open>pkt_ethertype[k]\<close> is the native load at \<open>et + 2k\<close>. The \<open>fail\<close> label prints six of them at
  verbosity 4 and returns NULL.
\<close>

definition ethernet_fail :: "int \<Rightarrow> mem \<Rightarrow> nat \<Rightarrow> nat option option" where
  "ethernet_fail verbosity m et =
     (if verbosity \<ge> 4 then do { _ \<leftarrow> region m et 12; Some None } else Some None)"

definition ethernet_qinq :: "int \<Rightarrow> mem \<Rightarrow> nat \<Rightarrow> nat option option" where
  "ethernet_qinq verbosity m et = do {
     e2 \<leftarrow> ld16 m (et + 4);
     if e2 = htons 0x8100 then do {
       e4 \<leftarrow> ld16 m (et + 8);
       if e4 = htons 0x0800 then Some (Some (et + 10)) else ethernet_fail verbosity m et }
     else ethernet_fail verbosity m et }"

definition ethernet_pppoe :: "int \<Rightarrow> mem \<Rightarrow> nat \<Rightarrow> nat option option" where
  "ethernet_pppoe verbosity m et = do {
     e1 \<leftarrow> ld16 m (et + 2);
     e4 \<leftarrow> ld16 m (et + 8);
     if e1 = htons 0x1100 \<and> (e4 = htons 0x0021 \<or> e4 = htons 0x0057) then Some (Some (et + 10))
     else if e4 = htons 0xc021 then Some None
     else ethernet_fail verbosity m et }"

function ethernet_get_header_ip :: "int \<Rightarrow> mem \<Rightarrow> nat \<Rightarrow> nat option option" where
  "ethernet_get_header_ip verbosity m pkt = do {
     let et = pkt + 12;
     e0 \<leftarrow> ld16 m et;
     if e0 = HTONS 0x0800 then Some (Some (et + 2))
     else if e0 = HTONS 0x86dd then Some (Some (et + 2))
     else if e0 = HTONS 0x8100 then do {
       e2 \<leftarrow> ld16 m (et + 4);
       if e2 = htons 0x0800 \<or> e2 = htons 0x86dd then Some (Some (et + 6))
       else if e2 = htons 0x8864 then ethernet_get_header_ip verbosity m (pkt + 4)
       else ethernet_qinq verbosity m et }
     else if e0 = HTONS 0x9100 then ethernet_qinq verbosity m et
     else if e0 = HTONS 0x88a8 then ethernet_qinq verbosity m et
     else if e0 = HTONS 0x8864 then ethernet_pppoe verbosity m et
     else ethernet_fail verbosity m et }"
  by pat_completeness auto

text \<open>The recursive call sees ethertype \<open>0x8864\<close>, which does not recurse.\<close>

termination
  by (relation "measure (\<lambda>(v, m, pkt). if ld16 m (pkt + 12) = Some (HTONS 0x8100) then 1 else 0)")
    (auto simp: htons_eq_HTONS HTONS_inject)

declare ethernet_get_header_ip.simps [simp del]

definition skip_tunnel_ip_header :: "mem \<Rightarrow> nat \<Rightarrow> nat option" where
  "skip_tunnel_ip_header m ip = do {
     v \<leftarrow> ip_version m ip;
     if v = 6 then do {
       n \<leftarrow> ipv6hdr_nexthdr m ip;
       Some (if n = 4 then ip + sizeof_ipv6hdr else ip) }
     else Some ip }"

section \<open>The encapsulations the link layer understands\<close>

datatype ip_family = Inet | Inet6

text \<open>
  The frames of the table in \<open>ethernet_get_header_ip\<close>, as the fields between the MAC addresses and
  the IP header: a VLAN tag, the outer ethertype and two tags of Q-in-Q, the PPPoE session and
  length. The first byte of a PPPoE header is version 1 type 1, code 0 (session data).
\<close>

datatype encap =
  Untagged ip_family
| Vlan u16 ip_family
| QinQ u16 u16 u16
| Pppoe u16 u16 ip_family
| VlanPppoe u16 u16 u16 ip_family

definition be_bytes :: "u16 \<Rightarrow> byte list" where
  "be_bytes w = [ucast (drop_bit 8 w), ucast w]"

primrec ethertype_of :: "ip_family \<Rightarrow> u16" where
  "ethertype_of Inet = 0x0800"
| "ethertype_of Inet6 = 0x86dd"

primrec ppp_protocol_of :: "ip_family \<Rightarrow> u16" where
  "ppp_protocol_of Inet = 0x0021"
| "ppp_protocol_of Inet6 = 0x0057"

primrec encap_fields :: "encap \<Rightarrow> u16 list" where
  "encap_fields (Untagged f) = [ethertype_of f]"
| "encap_fields (Vlan tag f) = [0x8100, tag, ethertype_of f]"
| "encap_fields (QinQ outer tag1 tag2) = [outer, tag1, 0x8100, tag2, 0x0800]"
| "encap_fields (Pppoe sess len f) = [0x8864, 0x1100, sess, len, ppp_protocol_of f]"
| "encap_fields (VlanPppoe tag sess len f) =
     [0x8100, tag, 0x8864, 0x1100, sess, len, ppp_protocol_of f]"

definition valid_encap :: "encap \<Rightarrow> bool" where
  "valid_encap e =
     (case e of QinQ outer tag1 tag2 \<Rightarrow> outer = 0x8100 \<or> outer = 0x9100 \<or> outer = 0x88a8
      | _ \<Rightarrow> True)"

definition encap_bytes :: "encap \<Rightarrow> byte list" where
  "encap_bytes e = concat (map be_bytes (encap_fields e))"

text \<open>The encapsulation \<open>e\<close> stands at \<open>et\<close>: each of its fields is loaded as its swapped value.\<close>

definition encap_at :: "mem \<Rightarrow> nat \<Rightarrow> encap \<Rightarrow> bool" where
  "encap_at m et e \<longleftrightarrow>
     (\<forall>k<length (encap_fields e). ld16 m (et + 2 * k) = Some (HTONS (encap_fields e ! k)))"

lemma ld16_be_bytes: "ld16 (a @ be_bytes w @ b) (length a) = Some (HTONS w)"
proof -
  have "ld16 (a @ be_bytes w @ b) (length a) =
      Some (ucast (ucast (drop_bit 8 w) :: byte) OR push_bit 8 (ucast (ucast w :: byte)))"
    by (simp add: ld16_def be_bytes_def rd8_def nth_append)
  also have "ucast (ucast (drop_bit 8 w) :: byte) OR push_bit 8 (ucast (ucast w :: byte)) = HTONS w"
    by (rule bit_word_eqI) (auto simp: HTONS_def bit_CONST_BSWAP16 bit_simps add.commute)
  finally show ?thesis .
qed

lemma ld16_encoded:
  "k < length ws \<Longrightarrow> ld16 (a @ concat (map be_bytes ws) @ b) (length a + 2 * k) = Some (HTONS (ws ! k))"
proof (induction ws arbitrary: a k)
  case Nil
  then show ?case by simp
next
  case (Cons w ws)
  show ?case
  proof (cases k)
    case 0
    then show ?thesis using ld16_be_bytes [of a w "concat (map be_bytes ws) @ b"] by simp
  next
    case (Suc j)
    with Cons.prems Cons.IH [of j "a @ be_bytes w"] show ?thesis
      by (simp add: be_bytes_def)
  qed
qed

lemma encap_at_encoded:
  "length macs = 12 \<Longrightarrow> encap_at (macs @ encap_bytes e @ payload) 12 e"
  using ld16_encoded [of _ "encap_fields e" macs payload]
  by (simp add: encap_at_def encap_bytes_def)

lemma length_encap_bytes: "length (encap_bytes e) = 2 * length (encap_fields e)"
  by (cases e) (simp_all add: encap_bytes_def be_bytes_def)

lemma encap_at_simps:
  "encap_at m et (Untagged f) \<longleftrightarrow> ld16 m et = Some (HTONS (ethertype_of f))"
  "encap_at m et (Vlan tag f) \<longleftrightarrow> ld16 m et = Some (HTONS 0x8100) \<and>
     ld16 m (et + 2) = Some (HTONS tag) \<and> ld16 m (et + 4) = Some (HTONS (ethertype_of f))"
  "encap_at m et (QinQ outer tag1 tag2) \<longleftrightarrow> ld16 m et = Some (HTONS outer) \<and>
     ld16 m (et + 2) = Some (HTONS tag1) \<and> ld16 m (et + 4) = Some (HTONS 0x8100) \<and>
     ld16 m (et + 6) = Some (HTONS tag2) \<and> ld16 m (et + 8) = Some (HTONS 0x0800)"
  "encap_at m et (Pppoe sess len f) \<longleftrightarrow> ld16 m et = Some (HTONS 0x8864) \<and>
     ld16 m (et + 2) = Some (HTONS 0x1100) \<and> ld16 m (et + 4) = Some (HTONS sess) \<and>
     ld16 m (et + 6) = Some (HTONS len) \<and> ld16 m (et + 8) = Some (HTONS (ppp_protocol_of f))"
  "encap_at m et (VlanPppoe tag sess len f) \<longleftrightarrow> ld16 m et = Some (HTONS 0x8100) \<and>
     ld16 m (et + 2) = Some (HTONS tag) \<and> encap_at m (et + 4) (Pppoe sess len f)"
  by (simp_all add: encap_at_def All_less_Suc2 conj_assoc numeral_eq_Suc)

lemma ld16_SomeD: "ld16 m i = Some w \<Longrightarrow> i + 2 \<le> length m"
  by (auto simp: ld16_def bind_Some_iff rd8_eq_Some)

lemma ld16_field: "i + 2 \<le> length m \<Longrightarrow> \<exists>w. ld16 m i = Some (HTONS w)"
  using ld16_defined [of i m] by (metis HTONS_def CONST_BSWAP16_involutive not_None_eq)

lemmas ethertype_simps = htons_eq_HTONS HTONS_inject Let_def ethernet_qinq_def ethernet_pppoe_def

lemma ethernet_pppoe_iff:
  "ethernet_pppoe v m et = Some (Some q) \<longleftrightarrow>
   (\<exists>f sess len. ld16 m (et + 2) = Some (HTONS 0x1100) \<and> ld16 m (et + 4) = Some (HTONS sess) \<and>
      ld16 m (et + 6) = Some (HTONS len) \<and> ld16 m (et + 8) = Some (HTONS (ppp_protocol_of f)) \<and>
      q = et + 10)" (is "?L \<longleftrightarrow> ?R")
proof
  assume ?L
  then have l: "ld16 m (et + 2) = Some (HTONS 0x1100)" "q = et + 10"
    "ld16 m (et + 8) = Some (HTONS 0x0021) \<or> ld16 m (et + 8) = Some (HTONS 0x0057)"
    by (auto simp: ethertype_simps ethernet_fail_def bind_Some_iff split: if_splits)
  then obtain f where "ld16 m (et + 8) = Some (HTONS (ppp_protocol_of f))"
    by (metis ppp_protocol_of.simps)
  moreover have "et + 10 \<le> length m" using l(3) ld16_SomeD by fastforce
  then obtain sess len where "ld16 m (et + 4) = Some (HTONS sess)" "ld16 m (et + 6) = Some (HTONS len)"
    using ld16_field [of "et + 4" m] ld16_field [of "et + 6" m] by auto
  ultimately show ?R using l by blast
next
  assume ?R
  then obtain f where "ld16 m (et + 2) = Some (HTONS 0x1100)"
    "ld16 m (et + 8) = Some (HTONS (ppp_protocol_of f))" "q = et + 10" by blast
  then show ?L by (cases f) (auto simp: ethertype_simps)
qed

lemma ethernet_qinq_iff:
  "ethernet_qinq v m et = Some (Some q) \<longleftrightarrow>
   ld16 m (et + 4) = Some (HTONS 0x8100) \<and> ld16 m (et + 8) = Some (HTONS 0x0800) \<and> q = et + 10"
  by (auto simp: ethertype_simps ethernet_fail_def bind_Some_iff split: if_splits)

lemma ethernet_get_header_ip_pppoe:
  "ld16 m (pkt + 12) = Some (HTONS 0x8864) \<Longrightarrow>
   ethernet_get_header_ip v m pkt = ethernet_pppoe v m (pkt + 12)"
  by (subst ethernet_get_header_ip.simps) (simp add: htons_eq_HTONS HTONS_inject)

lemma qinq_tags:
  assumes "ld16 m (et + 8) = Some w"
  obtains tag1 tag2 where "ld16 m (et + 2) = Some (HTONS tag1)" "ld16 m (et + 6) = Some (HTONS tag2)"
proof -
  have "et + 10 \<le> length m" using ld16_SomeD [OF assms] by simp
  then show ?thesis
    using ld16_field [of "et + 2" m] ld16_field [of "et + 6" m] that by auto
qed

lemma ethernet_get_header_ip_complete:
  assumes "valid_encap e" "encap_at m (pkt + 12) e"
  shows "ethernet_get_header_ip v m pkt = Some (Some (pkt + 12 + 2 * length (encap_fields e)))"
proof (cases e)
  case (Untagged f)
  then show ?thesis using assms
    by (cases f) (simp_all add: encap_at_simps ethernet_get_header_ip.simps [of v m pkt] HTONS_inject)
next
  case (Vlan tag f)
  then show ?thesis using assms
    by (cases f) (simp_all add: encap_at_simps ethernet_get_header_ip.simps [of v m pkt]
        HTONS_inject htons_eq_HTONS)
next
  case (QinQ outer tag1 tag2)
  then have "ethernet_qinq v m (pkt + 12) = Some (Some (pkt + 22))" using assms
    by (simp add: encap_at_simps ethernet_qinq_iff)
  then show ?thesis using assms QinQ
    by (auto simp: encap_at_simps valid_encap_def ethernet_get_header_ip.simps [of v m pkt]
        HTONS_inject htons_eq_HTONS)
next
  case (Pppoe sess len f)
  then have "ethernet_pppoe v m (pkt + 12) = Some (Some (pkt + 22))" using assms
    by (auto simp: encap_at_simps ethernet_pppoe_iff)
  then show ?thesis using assms Pppoe
    by (simp add: encap_at_simps ethernet_get_header_ip_pppoe)
next
  case (VlanPppoe tag sess len f)
  then have "ethernet_pppoe v m (pkt + 16) = Some (Some (pkt + 26))" using assms
    by (auto simp: encap_at_simps ethernet_pppoe_iff)
  then have "ethernet_get_header_ip v m (pkt + 4) = Some (Some (pkt + 26))"
    using assms VlanPppoe ethernet_get_header_ip_pppoe [of m "pkt + 4" v]
    by (simp add: encap_at_simps add.commute)
  then show ?thesis using assms VlanPppoe
    by (simp add: encap_at_simps ethernet_get_header_ip.simps [of v m pkt] HTONS_inject htons_eq_HTONS)
qed

text \<open>The first load selects the branch of the switch.\<close>

lemma ethernet_vlan_cases:
  assumes "ethernet_get_header_ip v m pkt = Some (Some q)" "ld16 m (pkt + 12) = Some (HTONS 0x8100)"
  obtains (tagged) f where "ld16 m (pkt + 12 + 4) = Some (HTONS (ethertype_of f))" "q = pkt + 12 + 6"
  | (qinq) "ethernet_qinq v m (pkt + 12) = Some (Some q)"
  | (rec) "ld16 m (pkt + 12 + 4) = Some (HTONS 0x8864)" "ethernet_get_header_ip v m (pkt + 4) = Some (Some q)"
proof -
  note eq = assms(1) [unfolded ethernet_get_header_ip.simps [of v m pkt] Let_def htons_eq_HTONS]
  from eq assms(2) have "do {
      e2 \<leftarrow> ld16 m (pkt + 12 + 4);
      if e2 = HTONS 0x0800 \<or> e2 = HTONS 0x86dd then Some (Some (pkt + 12 + 6))
      else if e2 = HTONS 0x8864 then ethernet_get_header_ip v m (pkt + 4)
      else ethernet_qinq v m (pkt + 12) } = Some (Some q)"
    by (simp add: HTONS_inject cong del: if_weak_cong)
  then obtain e2 where e2: "ld16 m (pkt + 12 + 4) = Some e2"
    "(if e2 = HTONS 0x0800 \<or> e2 = HTONS 0x86dd then Some (Some (pkt + 12 + 6))
      else if e2 = HTONS 0x8864 then ethernet_get_header_ip v m (pkt + 4)
      else ethernet_qinq v m (pkt + 12)) = Some (Some q)"
    by (auto simp only: bind_Some_iff)
  consider "e2 = HTONS 0x0800 \<or> e2 = HTONS 0x86dd"
    | "\<not> (e2 = HTONS 0x0800 \<or> e2 = HTONS 0x86dd)" "e2 = HTONS 0x8864"
    | "\<not> (e2 = HTONS 0x0800 \<or> e2 = HTONS 0x86dd)" "e2 \<noteq> HTONS 0x8864" by blast
  then show thesis
  proof cases
    case 1
    with e2 show thesis using tagged [of Inet] tagged [of Inet6] by auto
  next
    case 2
    with e2 show thesis by (intro rec) simp_all
  next
    case 3
    with e2 show thesis by (intro qinq) simp_all
  qed
qed

lemma ethernet_get_header_ip_cases:
  assumes "ethernet_get_header_ip v m pkt = Some (Some q)"
  obtains
    (ip) f where "ld16 m (pkt + 12) = Some (HTONS (ethertype_of f))" "q = pkt + 12 + 2"
  | (tagged) f where "ld16 m (pkt + 12) = Some (HTONS 0x8100)"
      "ld16 m (pkt + 12 + 4) = Some (HTONS (ethertype_of f))" "q = pkt + 12 + 6"
  | (qinq) outer where "ld16 m (pkt + 12) = Some (HTONS outer)"
      "outer = 0x8100 \<or> outer = 0x9100 \<or> outer = 0x88a8"
      "ethernet_qinq v m (pkt + 12) = Some (Some q)"
  | (pppoe) "ld16 m (pkt + 12) = Some (HTONS 0x8864)"
      "ethernet_pppoe v m (pkt + 12) = Some (Some q)"
  | (rec) "ld16 m (pkt + 12) = Some (HTONS 0x8100)" "ld16 m (pkt + 12 + 4) = Some (HTONS 0x8864)"
      "ethernet_get_header_ip v m (pkt + 4) = Some (Some q)"
proof -
  note eq = assms [unfolded ethernet_get_header_ip.simps [of v m pkt] Let_def htons_eq_HTONS]
  from eq obtain e0 where e0: "ld16 m (pkt + 12) = Some e0" by (auto simp: bind_Some_iff)
  consider "e0 = HTONS 0x0800" | "e0 = HTONS 0x86dd" | "e0 = HTONS 0x8100"
    | "e0 = HTONS 0x9100" | "e0 = HTONS 0x88a8" | "e0 = HTONS 0x8864"
    | "e0 \<notin> {HTONS 0x0800, HTONS 0x86dd, HTONS 0x8100, HTONS 0x9100, HTONS 0x88a8, HTONS 0x8864}"
    by blast
  then show thesis
  proof cases
    case 1
    with eq e0 show thesis by (intro ip [of Inet]) simp_all
  next
    case 2
    with eq e0 show thesis by (intro ip [of Inet6]) (simp_all add: HTONS_inject)
  next
    case 3
    from assms e0 [unfolded 3] show thesis
      by (cases rule: ethernet_vlan_cases) (use 3 e0 tagged rec qinq [of "0x8100"] in simp_all)
  next
    case 4
    with eq e0 show thesis by (intro qinq [of "0x9100"]) (simp_all add: HTONS_inject)
  next
    case 5
    with eq e0 show thesis by (intro qinq [of "0x88a8"]) (simp_all add: HTONS_inject)
  next
    case 6
    with eq e0 show thesis by (intro pppoe) (simp_all add: HTONS_inject)
  next
    case 7
    with eq e0 show thesis by (simp add: ethernet_fail_def bind_Some_iff split: if_splits)
  qed
qed

lemma ethernet_pppoe_fields:
  assumes "ethernet_pppoe v m et = Some (Some q)"
  obtains f sess len where "ld16 m (et + 2) = Some (HTONS 0x1100)" "ld16 m (et + 4) = Some (HTONS sess)"
    "ld16 m (et + 6) = Some (HTONS len)" "ld16 m (et + 8) = Some (HTONS (ppp_protocol_of f))" "q = et + 10"
  using assms by (auto simp only: ethernet_pppoe_iff)

lemma ethernet_get_header_ip_sound:
  assumes "ethernet_get_header_ip v m pkt = Some (Some q)"
  shows "\<exists>e. valid_encap e \<and> encap_at m (pkt + 12) e \<and> q = pkt + 12 + 2 * length (encap_fields e)" (is ?R)
proof -
  let ?et = "pkt + 12"
  have R: ?R if "valid_encap e" "encap_at m ?et e" "q = ?et + 2 * length (encap_fields e)" for e
    using that by blast
  from assms show ?R
  proof (cases rule: ethernet_get_header_ip_cases)
    case (ip f)
    then show ?thesis by (intro R [of "Untagged f"]) (simp_all add: encap_at_simps valid_encap_def)
  next
    case (tagged f)
    obtain tag where "ld16 m (pkt + 12 + 2) = Some (HTONS tag)"
      using ld16_field [of "pkt + 12 + 2" m] ld16_SomeD [OF tagged(2)] by auto
    with tagged show ?thesis
      by (intro R [of "Vlan tag f"]) (simp_all add: encap_at_simps valid_encap_def)
  next
    case (qinq outer)
    then have q: "ld16 m (?et + 4) = Some (HTONS 0x8100)" "ld16 m (?et + 8) = Some (HTONS 0x0800)"
      "q = ?et + 10"
      by (simp_all only: ethernet_qinq_iff)
    from qinq_tags [OF q(2)] obtain t1 t2 where
      "ld16 m (?et + 2) = Some (HTONS t1)" "ld16 m (?et + 6) = Some (HTONS t2)" .
    with q qinq(1,2) show ?thesis
      by (intro R [of "QinQ outer t1 t2"]) (simp_all add: encap_at_simps valid_encap_def)
  next
    case pppoe
    from pppoe(2) obtain f sess len where
      "ld16 m (?et + 2) = Some (HTONS 0x1100)" "ld16 m (?et + 4) = Some (HTONS sess)"
      "ld16 m (?et + 6) = Some (HTONS len)" "ld16 m (?et + 8) = Some (HTONS (ppp_protocol_of f))"
      "q = ?et + 10" by (rule ethernet_pppoe_fields)
    with pppoe(1) show ?thesis
      by (intro R [of "Pppoe sess len f"]) (simp_all add: encap_at_simps valid_encap_def)
  next
    case rec
    let ?et' = "?et + 4"
    have "ld16 m (pkt + 4 + 12) = Some (HTONS 0x8864)" using rec(2) by (simp add: add.commute [of pkt])
    from ethernet_get_header_ip_pppoe [OF this, of v] rec(3)
    have "ethernet_pppoe v m ?et' = Some (Some q)" by (simp add: add.commute [of pkt])
    from this obtain f sess len where
      p: "ld16 m (?et' + 2) = Some (HTONS 0x1100)" "ld16 m (?et' + 4) = Some (HTONS sess)"
      "ld16 m (?et' + 6) = Some (HTONS len)" "ld16 m (?et' + 8) = Some (HTONS (ppp_protocol_of f))"
      "q = ?et' + 10" by (rule ethernet_pppoe_fields)
    obtain tag where "ld16 m (?et + 2) = Some (HTONS tag)"
      using ld16_field [of "?et + 2" m] ld16_SomeD [OF rec(2)] by auto
    with p rec(1,2) show ?thesis
      by (intro R [of "VlanPppoe tag sess len f"])
        (simp_all add: encap_at_simps valid_encap_def add.commute [of pkt])
  qed
qed


text \<open>
  C18: encoding round trip. Whatever the MAC addresses, tags and payload, the frame that carries
  a supported encapsulation is decoded to the offset at which its IP header was written.
\<close>

theorem ethernet_encap_roundtrip:
  assumes "length macs = 12" "valid_encap e"
  shows "ethernet_get_header_ip v (macs @ encap_bytes e @ payload) 0 =
    Some (Some (12 + length (encap_bytes e)))"
  using ethernet_get_header_ip_complete [OF assms(2), of _ 0] encap_at_encoded [OF assms(1)]
  by (simp add: length_encap_bytes)

theorem ethernet_encap_roundtrip_witness:
  "ethernet_get_header_ip 0 (replicate 12 0 @ encap_bytes (QinQ 0x88a8 7 9) @ [0x45]) 0 =
    Some (Some (12 + length (encap_bytes (QinQ 0x88a8 7 9))))"
  by (rule ethernet_encap_roundtrip) (simp_all add: valid_encap_def)

text \<open>
  Q-in-Q frames that carry IPv6 are not decoded: after two tags only the IPv4 ethertype is
  accepted, although single-tagged IPv6 frames are.
\<close>

theorem ethernet_qinq_inet6_dropped:
  assumes "ld16 m (pkt + 12) = Some (HTONS outer)" "outer = 0x8100 \<or> outer = 0x9100 \<or> outer = 0x88a8"
    and "ld16 m (pkt + 16) = Some (HTONS 0x8100)" "ld16 m (pkt + 20) = Some (HTONS 0x86dd)"
  shows "ethernet_get_header_ip 0 m pkt = Some None"
proof -
  have "ethernet_qinq 0 m (pkt + 12) = Some None"
    using assms by (simp add: ethertype_simps ethernet_fail_def add.commute [of pkt])
  then show ?thesis
    using assms by (auto simp: ethernet_get_header_ip.simps [of 0 m pkt] HTONS_inject htons_eq_HTONS
        add.commute [of pkt])
qed

theorem ethernet_qinq_inet6_dropped_witness:
  "ethernet_get_header_ip 0
     (replicate 12 0 @ [0x81, 0, 0, 5, 0x81, 0, 0, 6, 0x86, 0xdd, 0x60]) 0 = Some None"
proof (rule ethernet_qinq_inet6_dropped [where outer = "0x8100"])
  let ?m = "replicate 12 0 @ [0x81, 0, 0, 5, 0x81, 0, 0, 6, 0x86, 0xdd, 0x60] :: mem"
  show "ld16 ?m (0 + 12) = Some (HTONS 0x8100)" by code_simp
  show "ld16 ?m (0 + 16) = Some (HTONS 0x8100)" by code_simp
  show "ld16 ?m (0 + 20) = Some (HTONS 0x86dd)" by code_simp
qed simp

end
