(* ===== verification/CNumbers.thy ===== *)
theory CNumbers
  imports CStrings Endian
begin

text \<open>
  The C library's conversions of text to numbers, on NUL-terminated strings: \<open>atol\<close> and
  \<open>atoi\<close> (as \<open>strtol\<close> in base 10, saturating at the bounds of \<open>long\<close>, and its conversion to
  \<open>int\<close>), and \<open>inet_addr\<close> (the one to four parts of \<open>inet_aton\<close>, each decimal, octal or
  hexadecimal).
\<close>

section \<open>strtol, atol, atoi\<close>

fun skip_ws :: "byte list \<Rightarrow> byte list option" where
  "skip_ws [] = None"
| "skip_ws (b # bs) = (if isspace b then skip_ws bs else Some (b # bs))"

definition digit_val :: "byte \<Rightarrow> int" where
  "digit_val b = uint (b - 48)"

fun dec_digits :: "int \<Rightarrow> byte list \<Rightarrow> (int \<times> byte list) option" where
  "dec_digits v [] = None"
| "dec_digits v (b # bs) =
     (if isdigit b then dec_digits (10 * v + digit_val b) bs else Some (v, b # bs))"

definition clamp_long :: "int \<Rightarrow> int" where
  "clamp_long v = max (- (2 ^ 63)) (min (2 ^ 63 - 1) v)"

definition sign_split :: "byte list \<Rightarrow> bool \<times> byte list" where
  "sign_split s =
     (case s of
        b # bs \<Rightarrow> (if b = 45 then (True, bs) else if b = 43 then (False, bs) else (False, s))
      | [] \<Rightarrow> (False, s))"

definition atol :: "byte list \<Rightarrow> int option" where
  "atol s = do {
     s \<leftarrow> skip_ws s;
     let (neg, t) = sign_split s;
     (v, _) \<leftarrow> dec_digits 0 t;
     Some (clamp_long (if neg then - v else v)) }"

definition atoi :: "byte list \<Rightarrow> int option" where
  "atoi s = map_option (\<lambda>v. sint (word_of_int v :: u32)) (atol s)"

lemma skip_ws_0: "0 \<in> set s \<Longrightarrow> \<exists>t. skip_ws s = Some t \<and> 0 \<in> set t"
  by (induction s) (auto simp: isspace_def)

lemma dec_digits_0: "0 \<in> set s \<Longrightarrow> dec_digits v s \<noteq> None"
  by (induction v s rule: dec_digits.induct) (auto simp: isdigit_def)

lemma sign_split_0: "0 \<in> set s \<Longrightarrow> 0 \<in> set (snd (sign_split s))"
  by (auto simp: sign_split_def split: list.splits)

lemma atol_defined: "0 \<in> set s \<Longrightarrow> atol s \<noteq> None"
proof -
  assume "0 \<in> set s"
  then obtain t where t: "skip_ws s = Some t" "0 \<in> set t"
    using skip_ws_0 by blast
  obtain neg u where u: "sign_split t = (neg, u)" by fastforce
  with t(2) have "0 \<in> set u" using sign_split_0 [of t] by simp
  then obtain v r where "dec_digits 0 u = Some (v, r)"
    using dec_digits_0 [of u 0] by fastforce
  with t u show ?thesis by (simp add: atol_def)
qed

lemma atoi_defined: "0 \<in> set s \<Longrightarrow> atoi s \<noteq> None"
  by (simp add: atoi_def atol_defined)

lemma clamp_long_bounds: "- (2 ^ 63) \<le> clamp_long v \<and> clamp_long v < 2 ^ 63"
  by (simp add: clamp_long_def)

section \<open>inet\_addr\<close>

definition INADDR_NONE :: u32 where
  "INADDR_NONE = 0xffffffff"

definition hex_val :: "byte \<Rightarrow> int option" where
  "hex_val b =
     (if isdigit b then Some (uint (b - 48))
      else if 97 \<le> b \<and> b \<le> 102 then Some (uint (b - 87))
      else if 65 \<le> b \<and> b \<le> 70 then Some (uint (b - 55)) else None)"

fun base_digits :: "int \<Rightarrow> int \<Rightarrow> byte list \<Rightarrow> (int \<times> byte list) option" where
  "base_digits base v [] = None"
| "base_digits base v (b # bs) =
     (case hex_val b of
        None \<Rightarrow> Some (v, b # bs)
      | Some d \<Rightarrow> (if d < base then base_digits base (base * v + d) bs else Some (v, b # bs)))"

text \<open>\<open>strtoul (cp, &endp, 0)\<close> at a digit: the prefix selects the base.\<close>

definition strtoul0 :: "byte list \<Rightarrow> (int \<times> byte list) option" where
  "strtoul0 s =
     (case s of
        b # x # h # r \<Rightarrow>
          (if b \<noteq> 48 then base_digits 10 0 s
           else if tolower x = 120 \<and> hex_val h \<noteq> None then base_digits 16 0 (h # r)
           else base_digits 8 0 s)
      | b # r \<Rightarrow> base_digits (if b = 48 then 8 else 10) 0 s
      | [] \<Rightarrow> None)"

text \<open>\<open>k\<close> counts the dots still allowed, \<open>acc\<close> is the address read so far in host order.\<close>

fun inet_parts :: "nat \<Rightarrow> int \<Rightarrow> byte list \<Rightarrow> int option option" where
  "inet_parts k acc [] = None"
| "inet_parts k acc (b # bs) =
     (if \<not> isdigit b then Some None
      else do {
        (val, rest) \<leftarrow> strtoul0 (b # bs);
        if val > 0xffffffff then Some None
        else case rest of
          [] \<Rightarrow> None
        | c # cs \<Rightarrow>
            if c = 46 then
              (case k of
                 0 \<Rightarrow> Some None
               | Suc k' \<Rightarrow> if val > 0xff then Some None
                           else inet_parts k' (acc + val * 256 ^ k) cs)
            else if c \<noteq> 0 \<and> \<not> isspace c then Some None
            else if val > 256 ^ (k + 1) - 1 then Some None
            else Some (Some (acc + val)) })"

definition inet_addr :: "byte list \<Rightarrow> u32 option" where
  "inet_addr s =
     map_option (\<lambda>r. case r of None \<Rightarrow> INADDR_NONE | Some v \<Rightarrow> htonl (word_of_int v))
       (inet_parts 3 0 s)"

lemma base_digits_0:
  "0 \<in> set s \<Longrightarrow> \<exists>v' t. base_digits base v s = Some (v', t) \<and> 0 \<in> set t"
  by (induction base v s rule: base_digits.induct)
    (auto simp: hex_val_def isdigit_def split: option.splits)

lemma strtoul0_0:
  assumes "0 \<in> set s"
  obtains v t where "strtoul0 s = Some (v, t)" "0 \<in> set t"
proof -
  have *: "\<exists>v t. base_digits base 0 u = Some (v, t) \<and> 0 \<in> set t" if "0 \<in> set u" for base u
    using base_digits_0 [OF that, of base 0] by blast
  have "\<exists>v t. strtoul0 s = Some (v, t) \<and> 0 \<in> set t"
  proof (cases s)
    case Nil
    with assms show ?thesis by simp
  next
    case s: (Cons b r)
    show ?thesis
    proof (cases "\<exists>x h r'. r = x # h # r' \<and> b = 48 \<and> tolower x = 120 \<and> hex_val h \<noteq> None")
      case True
      then obtain x h r' where r: "r = x # h # r'" "b = 48" "tolower x = 120" "hex_val h \<noteq> None"
        by blast
      with assms s have "0 \<in> set (h # r')" using r(3) by (cases "x = 0") auto
      with r s * [of "h # r'" 16] show ?thesis by (auto simp: strtoul0_def)
    next
      case False
      with * [OF assms] s show ?thesis
        by (auto simp: strtoul0_def split: list.splits)
    qed
  qed
  then show thesis using that by blast
qed

lemma inet_parts_defined: "0 \<in> set s \<Longrightarrow> inet_parts k acc s \<noteq> None"
proof (induction k acc s rule: inet_parts.induct)
  case (1 k acc)
  then show ?case by simp
next
  case (2 k acc b bs)
  show ?case
  proof (cases "isdigit b")
    case False
    then show ?thesis by simp
  next
    case True
    from strtoul0_0 [OF "2.prems"] obtain v t where
      vt: "strtoul0 (b # bs) = Some (v, t)" and "0 \<in> set t" by blast
    then obtain c cs where t: "t = c # cs" by (cases t) auto
    have "inet_parts k' (acc + v * 256 ^ k) cs \<noteq> None"
      if "c = 46" "k = Suc k'" "\<not> v > 0xffffffff" "\<not> v > 0xff" for k'
      using "2.IH" [of "(v, t)" v t c cs k'] that True vt t \<open>0 \<in> set t\<close> by auto
    then show ?thesis
      using True vt t by (auto split: nat.splits)
  qed
qed

lemma inet_addr_defined: "0 \<in> set s \<Longrightarrow> inet_addr s \<noteq> None"
  using inet_parts_defined by (simp add: inet_addr_def)

lemma inet_addr_examples:
  "inet_addr (str ''192.0.2.10'' @ [0]) = Some (ntohl 0xC000020A)"
  "inet_addr [0] = Some INADDR_NONE"
  "inet_addr (str ''1.2.3.256'' @ [0]) = Some INADDR_NONE"
  by (code_simp, code_simp, code_simp)

end
