(* ===== verification/Strlib.thy ===== *)
theory Strlib
  imports CNumbers
begin

text \<open>
  \<open>pcapsipdump_strlib.cpp\<close>: the header scanner \<open>gettag\<close> and \<open>sdp_get_rtpmap_event\<close>.

  \<open>gettag\<close> works on the region of \<open>len\<close> bytes at \<open>ptr\<close>. Its result is the returned pointer
  (\<open>None\<close> for NULL) with the length stored through \<open>gettaglen\<close>. The fuel of \<open>gettag_loop\<close> is
  one more than the number of positions of the region: for a non-empty tag every turn of the
  code's loop advances, so it is never used up (\<open>gettag_defined\<close>).
\<close>

section \<open>gettag\<close>

text \<open>\<open>while (r < (ptr+len) && r[0] == ' ') r++\<close>, with \<open>n\<close> the bytes left before \<open>ptr+len\<close>.\<close>

fun skip_spaces :: "nat \<Rightarrow> mem \<Rightarrow> nat \<Rightarrow> nat option" where
  "skip_spaces 0 m r = Some r"
| "skip_spaces (Suc n) m r = do {
     b \<leftarrow> rd8 m r;
     if b = SP then skip_spaces n m (r + 1) else Some r }"

text \<open>\<open>for (lp = r; lp < (ptr+len); lp++) if (*lp == '\r' || *lp == '\n') ...\<close>\<close>

fun find_eol :: "nat \<Rightarrow> mem \<Rightarrow> nat \<Rightarrow> nat option option" where
  "find_eol 0 m lp = Some None"
| "find_eol (Suc n) m lp = do {
     b \<leftarrow> rd8 m lp;
     if b = CR \<or> b = LF then Some (Some lp) else find_eol n m (lp + 1) }"

fun gettag_loop :: "nat \<Rightarrow> mem \<Rightarrow> nat \<Rightarrow> nat \<Rightarrow> byte list \<Rightarrow> nat \<Rightarrow> (nat option \<times> nat) option" where
  "gettag_loop 0 m ptr len tag r = None"
| "gettag_loop (Suc fuel) m ptr len tag r =
     (if r - ptr < len then do {
        h \<leftarrow> memmem m (Some r) (len - (r - ptr)) tag;
        case h of
          None \<Rightarrow> Some (None, 0)
        | Some r \<Rightarrow> do {
            line_start \<leftarrow> (if r = ptr then Some True
                          else do { b \<leftarrow> rd8 m (r - 1); Some (b = CR \<or> b = LF) });
            if line_start then do {
              s \<leftarrow> skip_spaces (ptr + len - (r + length tag)) m (r + length tag);
              e \<leftarrow> find_eol (ptr + len - s) m s;
              case e of
                Some lp \<Rightarrow> Some (Some s, lp - s)
              | None \<Rightarrow> gettag_loop fuel m ptr len tag s }
            else gettag_loop fuel m ptr len tag (r + 1) } }
      else Some (None, 0))"

definition gettag :: "mem \<Rightarrow> nat \<Rightarrow> nat \<Rightarrow> byte list \<Rightarrow> (nat option \<times> nat) option" where
  "gettag m ptr len tag =
     (if len > 1 then gettag_loop (Suc len) m ptr len tag ptr else Some (None, 0))"

section \<open>sdp\_get\_rtpmap\_event\<close>

definition rtpmap_te :: "byte list" where
  "rtpmap_te = str '' telephone-event/''"

definition sdp_get_rtpmap_event :: "mem \<Rightarrow> nat \<Rightarrow> byte option" where
  "sdp_get_rtpmap_event m sdp = do {
     n \<leftarrow> strlen (drop sdp m);
     (s, _) \<leftarrow> gettag m sdp (unat (word_of_nat n :: u32)) (str ''a=rtpmap:'');
     case s of
       None \<Rightarrow> Some 0
     | Some s \<Rightarrow> do {
         c1 \<leftarrow> strncmp_lit rtpmap_te (drop (s + 1) m);
         c2 \<leftarrow> (if c1 then Some True else strncmp_lit rtpmap_te (drop (s + 2) m));
         c3 \<leftarrow> (if c2 then Some True else strncmp_lit rtpmap_te (drop (s + 3) m));
         if c3 then do {
           l \<leftarrow> atol (drop s m);
           let l = (word_of_int l :: u64);
           Some (if l \<le> 255 then ucast l else 0) }
         else Some 0 } }"

section \<open>What gettag promises\<close>

text \<open>
  The tag stands at position \<open>i\<close>, at the start of a line of the region; \<open>s\<close> is the first byte
  after the tag and its spaces, and the value of \<open>l\<close> bytes at \<open>s\<close> ends at a CR or LF of the region.
\<close>

definition eol :: "byte \<Rightarrow> bool" where
  "eol b = (b = CR \<or> b = LF)"

definition is_tag_line :: "mem \<Rightarrow> nat \<Rightarrow> nat \<Rightarrow> byte list \<Rightarrow> nat \<Rightarrow> nat \<Rightarrow> nat \<Rightarrow> bool" where
  "is_tag_line m ptr len tag i s l \<longleftrightarrow>
     ptr \<le> i \<and> (i = ptr \<or> eol (m ! (i - 1))) \<and> occurs m tag i \<and>
     i + length tag \<le> s \<and> s + l < ptr + len \<and>
     range_all (\<lambda>j. m ! j = SP) (i + length tag) s \<and> m ! s \<noteq> SP \<and>
     range_all (\<lambda>j. \<not> eol (m ! j)) s (s + l) \<and> eol (m ! (s + l))"

definition has_tag_line :: "mem \<Rightarrow> nat \<Rightarrow> nat \<Rightarrow> byte list \<Rightarrow> nat \<Rightarrow> bool" where
  "has_tag_line m ptr len tag i \<longleftrightarrow> (\<exists>s l. is_tag_line m ptr len tag i s l)"

definition good_tag :: "byte list \<Rightarrow> bool" where
  "good_tag tag \<longleftrightarrow> tag \<noteq> [] \<and> CR \<notin> set tag \<and> LF \<notin> set tag"

lemma skip_spaces_spec:
  assumes "r + n \<le> length m"
  shows "\<exists>s. skip_spaces n m r = Some s \<and> r \<le> s \<and> s \<le> r + n \<and>
    range_all (\<lambda>j. m ! j = SP) r s \<and> (s < r + n \<longrightarrow> m ! s \<noteq> SP)"
  using assms
proof (induction n m r rule: skip_spaces.induct)
  case (1 m r)
  then show ?case by simp
next
  case (2 n m r)
  from "2.prems" have b: "rd8 m r = Some (m ! r)" by (simp add: mem_simps)
  show ?case
  proof (cases "m ! r = SP")
    case False
    with b show ?thesis by (intro exI [of _ r]) simp
  next
    case True
    from "2.prems" have "r + 1 + n \<le> length m" by simp
    from "2.IH" [OF b True this] obtain s where
      s: "skip_spaces n m (r + 1) = Some s" "r + 1 \<le> s" "s \<le> r + 1 + n"
        "range_all (\<lambda>j. m ! j = SP) (r + 1) s" "s < r + 1 + n \<longrightarrow> m ! s \<noteq> SP"
      by blast
    from True s(4) have "range_all (\<lambda>j. m ! j = SP) r s"
      by (intro range_all_Suc [of _ r]) simp_all
    with s b True show ?thesis by (intro exI [of _ s]) simp
  qed
qed

lemma find_eol_spec:
  assumes "lp + n \<le> length m"
  obtains (Unterminated) "find_eol n m lp = Some None"
      "range_all (\<lambda>j. \<not> eol (m ! j)) lp (lp + n)"
  | (Eol) e where "find_eol n m lp = Some (Some e)" "lp \<le> e" "e < lp + n" "eol (m ! e)"
      "range_all (\<lambda>j. \<not> eol (m ! j)) lp e"
  using assms
proof (induction n m lp arbitrary: thesis rule: find_eol.induct)
  case (1 m lp)
  then show ?case by simp
next
  case (2 n m lp)
  from "2.prems" have b: "rd8 m lp = Some (m ! lp)" by (simp add: mem_simps)
  show ?case
  proof (cases "eol (m ! lp)")
    case True
    with b show ?thesis by (intro "2.prems"(2) [of lp]) (auto simp: eol_def)
  next
    case False
    with b have eq: "find_eol (Suc n) m lp = find_eol n m (lp + 1)"
      by (simp add: eol_def)
    from False have ne: "\<not> (m ! lp = CR \<or> m ! lp = LF)" by (simp add: eol_def)
    have step: "\<And>e. range_all (\<lambda>j. \<not> eol (m ! j)) (lp + 1) e \<Longrightarrow>
        range_all (\<lambda>j. \<not> eol (m ! j)) lp e"
      using False by (intro range_all_Suc [of _ lp]) simp_all
    show ?thesis
    proof (rule "2.IH" [OF b ne])
      show "lp + 1 + n \<le> length m" using "2.prems" by simp
    next
      assume "find_eol n m (lp + 1) = Some None"
        "range_all (\<lambda>j. \<not> eol (m ! j)) (lp + 1) (lp + 1 + n)"
      then show thesis using step by (intro "2.prems"(1)) (simp_all add: eq del: find_eol.simps)
    next
      fix e assume "find_eol n m (lp + 1) = Some (Some e)" "lp + 1 \<le> e" "e < lp + 1 + n"
        "eol (m ! e)" "range_all (\<lambda>j. \<not> eol (m ! j)) (lp + 1) e"
      then show thesis using step by (intro "2.prems"(2) [of e]) (simp_all add: eq del: find_eol.simps)
    qed
  qed
qed

lemma tag_line_eol:
  assumes "has_tag_line m ptr len tag i"
  shows "\<exists>e. i \<le> e \<and> e < ptr + len \<and> eol (m ! e)"
proof -
  from assms obtain s l where "i + length tag \<le> s" "s + l < ptr + len" "eol (m ! (s + l))"
    by (auto simp: has_tag_line_def is_tag_line_def)
  then show ?thesis by (intro exI [of _ "s + l"]) simp
qed

lemma tag_line_occurs:
  "has_tag_line m ptr len tag i \<Longrightarrow> occurs m tag i \<and> i + length tag \<le> ptr + len"
  by (auto simp: has_tag_line_def is_tag_line_def)

text \<open>A terminated line that starts with the tag is a tag line.\<close>

lemma tag_line_intro:
  assumes "ptr \<le> i" "i = ptr \<or> eol (m ! (i - 1))" "occurs m tag i"
    and "i + length tag \<le> s" "range_all (\<lambda>j. m ! j = SP) (i + length tag) s" "m ! s \<noteq> SP"
    and "s \<le> e" "e < ptr + len" "eol (m ! e)" "range_all (\<lambda>j. \<not> eol (m ! j)) s e"
  shows "is_tag_line m ptr len tag i s (e - s)"
  using assms by (simp add: is_tag_line_def)

lemma occurs_nth: "occurs m tag i \<Longrightarrow> k < length tag \<Longrightarrow> m ! (i + k) = tag ! k"
proof -
  assume occ: "occurs m tag i" and k: "k < length tag"
  from occ have "length tag \<le> length m - i"
    unfolding occurs_def by (metis length_drop length_take min.cobounded1)
  with k have i: "i \<le> length m" by simp
  from occ have "tag ! k = take (length tag) (drop i m) ! k"
    by (simp add: occurs_def)
  with i k show "m ! (i + k) = tag ! k" by simp
qed

text \<open>An unterminated tag line leaves no line end behind it, so no tag line follows.\<close>

lemma unterminated_no_tag_line:
  assumes "good_tag tag" "occurs m tag i"
    and sp: "range_all (\<lambda>j. m ! j = SP) (i + length tag) s"
    and noeol: "range_all (\<lambda>j. \<not> eol (m ! j)) s (ptr + len)"
    and "i \<le> k"
  shows "\<not> has_tag_line m ptr len tag k"
proof
  assume "has_tag_line m ptr len tag k"
  then obtain e where e: "k \<le> e" "e < ptr + len" "eol (m ! e)"
    using tag_line_eol by blast
  consider "e < i + length tag" | "i + length tag \<le> e" "e < s" | "s \<le> e"
    by fastforce
  then show False
  proof cases
    case 1
    with e assms(5) have "m ! e = tag ! (e - i)"
      using occurs_nth [OF assms(2), of "e - i"] by simp
    moreover have "tag ! (e - i) \<in> set tag" using 1 e assms(5) by simp
    ultimately show False using assms(1) e(3) by (auto simp: good_tag_def eol_def)
  next
    case 2
    with range_allD [OF sp] e(3) show False by (simp add: eol_def)
  next
    case 3
    with range_allD [OF noeol] e show False by simp
  qed
qed

text \<open>
  The result of the scan from \<open>r\<close>, given that no tag line starts before \<open>r\<close>: the first tag line
  of the region, or NULL if there is none.
\<close>

definition tag_result :: "mem \<Rightarrow> nat \<Rightarrow> nat \<Rightarrow> byte list \<Rightarrow> (nat option \<times> nat) \<Rightarrow> bool" where
  "tag_result m ptr len tag res \<longleftrightarrow>
     (case res of
        (None, l) \<Rightarrow> l = 0 \<and> (\<forall>i\<ge>ptr. \<not> has_tag_line m ptr len tag i)
      | (Some s, l) \<Rightarrow> \<exists>i. is_tag_line m ptr len tag i s l \<and>
                         (\<forall>k. ptr \<le> k \<and> k < i \<longrightarrow> \<not> has_tag_line m ptr len tag k))"

lemma tag_result_NULL:
  assumes "\<forall>k. ptr \<le> k \<and> k < r \<longrightarrow> \<not> has_tag_line m ptr len tag k"
    and "\<And>k. r \<le> k \<Longrightarrow> \<not> has_tag_line m ptr len tag k"
  shows "tag_result m ptr len tag (None, 0)"
proof -
  have "\<not> has_tag_line m ptr len tag i" if "ptr \<le> i" for i
    using assms that by (cases "i < r") auto
  then show ?thesis by (simp add: tag_result_def)
qed

lemma tag_result_found:
  "is_tag_line m ptr len tag i s l \<Longrightarrow>
   \<forall>k. ptr \<le> k \<and> k < i \<longrightarrow> \<not> has_tag_line m ptr len tag k \<Longrightarrow>
   tag_result m ptr len tag (Some s, l)"
  by (auto simp: tag_result_def)

text \<open>
  One iteration: the loop ends with the right result, or goes on at a later position before which there
  is no line with the tag.
\<close>

definition no_tag_line_before :: "mem \<Rightarrow> nat \<Rightarrow> nat \<Rightarrow> byte list \<Rightarrow> nat \<Rightarrow> bool" where
  "no_tag_line_before m ptr len tag r \<longleftrightarrow> (\<forall>k. ptr \<le> k \<and> k < r \<longrightarrow> \<not> has_tag_line m ptr len tag k)"

definition gettag_advances :: "nat \<Rightarrow> mem \<Rightarrow> nat \<Rightarrow> nat \<Rightarrow> byte list \<Rightarrow> nat \<Rightarrow> bool" where
  "gettag_advances fuel m ptr len tag r \<longleftrightarrow>
     (\<exists>res. gettag_loop (Suc fuel) m ptr len tag r = Some res \<and> tag_result m ptr len tag res) \<or>
     (\<exists>r'>r. r' \<le> ptr + len \<and> no_tag_line_before m ptr len tag r' \<and>
        gettag_loop (Suc fuel) m ptr len tag r = gettag_loop fuel m ptr len tag r')"

lemma gettag_ends:
  assumes "no_tag_line_before m ptr len tag r" "\<And>k. r \<le> k \<Longrightarrow> \<not> has_tag_line m ptr len tag k"
    and "gettag_loop (Suc fuel) m ptr len tag r = Some (None, 0)"
  shows "gettag_advances fuel m ptr len tag r"
  using assms tag_result_NULL [of ptr r m len tag] unfolding gettag_advances_def no_tag_line_before_def by blast

lemma gettag_goes_on:
  assumes "r < r'" "r' \<le> ptr + len" "no_tag_line_before m ptr len tag r'"
    and "gettag_loop (Suc fuel) m ptr len tag r = gettag_loop fuel m ptr len tag r'"
  shows "gettag_advances fuel m ptr len tag r"
  using assms unfolding gettag_advances_def by blast

text \<open>The tag is at \<open>q\<close>, at the start of a line.\<close>

lemma gettag_at_line_start:
  assumes "good_tag tag" "ptr + len \<le> length m" "ptr \<le> r" "r \<le> q" "q + length tag \<le> ptr + len"
    and "memmem m (Some r) (len - (r - ptr)) tag = Some (Some q)" "occurs m tag q"
    and "q = ptr \<or> rd8 m (q - 1) = Some (m ! (q - 1)) \<and> eol (m ! (q - 1))"
    and "no_tag_line_before m ptr len tag q"
  shows "gettag_advances fuel m ptr len tag r"
proof -
  let ?a = "q + length tag"
  obtain t where tag: "length tag = Suc t" using assms(1) by (cases tag) (auto simp: good_tag_def)
  have "?a + (ptr + len - ?a) \<le> length m" using assms(2,5) by simp
  from skip_spaces_spec [OF this] obtain s where
    s: "skip_spaces (ptr + len - ?a) m ?a = Some s" "?a \<le> s" "s \<le> ptr + len"
      "range_all (\<lambda>j. m ! j = SP) ?a s" "s < ptr + len \<longrightarrow> m ! s \<noteq> SP"
    using assms(5) by auto
  have inside: "r - ptr < len" using assms(3-5) tag by simp
  have eq: "gettag_loop (Suc fuel) m ptr len tag r = do {
      e \<leftarrow> find_eol (ptr + len - s) m s;
      case e of
        Some lp \<Rightarrow> Some (Some s, lp - s)
      | None \<Rightarrow> gettag_loop fuel m ptr len tag s }"
    using inside assms(6,8) s(1) by (auto simp: eol_def)
  have "s + (ptr + len - s) \<le> length m" using s(3) assms(2) by simp
  then show ?thesis
  proof (cases rule: find_eol_spec [of s "ptr + len - s" m])
    case (Eol e)
    have "is_tag_line m ptr len tag q s (e - s)"
      using assms(3-8) s Eol by (intro tag_line_intro) auto
    then have "tag_result m ptr len tag (Some s, e - s)"
      using assms(9) unfolding no_tag_line_before_def by (auto intro: tag_result_found)
    with Eol(1) show ?thesis unfolding eq gettag_advances_def by auto
  next
    case Unterminated
    have "\<not> has_tag_line m ptr len tag k" if "q \<le> k" for k
      using unterminated_no_tag_line [OF assms(1,7) s(4) _ that] Unterminated(2) s(3) by simp
    with assms(9) have "no_tag_line_before m ptr len tag s"
      unfolding no_tag_line_before_def by (meson linorder_not_less)
    moreover have "gettag_loop (Suc fuel) m ptr len tag r = gettag_loop fuel m ptr len tag s"
      unfolding eq using Unterminated(1) by simp
    ultimately show ?thesis using s(2,3) assms(4) tag by (intro gettag_goes_on [of r s]) auto
  qed
qed

lemma gettag_step:
  assumes "good_tag tag" "ptr + len \<le> length m" "ptr \<le> r" "r \<le> ptr + len" "no_tag_line_before m ptr len tag r"
  shows "gettag_advances fuel m ptr len tag r"
proof (cases "r - ptr < len")
  case False
  then have "ptr + len \<le> r" using assms(3) by simp
  then have "\<not> has_tag_line m ptr len tag k" if "r \<le> k" for k
    using tag_line_eol that by (metis le_trans linorder_not_less)
  with False assms(5) show ?thesis by (intro gettag_ends) simp_all
next
  case inside: True
  let ?n = "len - (r - ptr)"
  have n: "r + ?n = ptr + len" using inside assms(3) by simp
  with assms(2) have "r + ?n \<le> length m" by simp
  then show ?thesis
  proof (cases rule: memmem_spec [of r ?n m tag])
    case Null
    then have "\<not> has_tag_line m ptr len tag k" if "r \<le> k" for k
      using that n tag_line_occurs by metis
    with inside Null(1) assms(5) show ?thesis by (intro gettag_ends) simp_all
  next
    case (Found q)
    obtain t where tl: "length tag = Suc t" using assms(1) by (cases tag) (auto simp: good_tag_def)
    from Found have qb: "r \<le> q" "q + length tag \<le> ptr + len" using n by simp_all
    have before_q: "no_tag_line_before m ptr len tag q"
      using assms(5) Found(5) tag_line_occurs unfolding no_tag_line_before_def by (meson linorder_not_less)
    have rd: "q \<noteq> ptr \<Longrightarrow> rd8 m (q - 1) = Some (m ! (q - 1))"
      using qb assms(2) tl by (simp add: mem_simps)
    show ?thesis
    proof (cases "q = ptr \<or> eol (m ! (q - 1))")
      case False
      then have "\<not> has_tag_line m ptr len tag q" by (auto simp: has_tag_line_def is_tag_line_def)
      with before_q have "no_tag_line_before m ptr len tag (q + 1)"
        by (auto simp: no_tag_line_before_def less_Suc_eq)
      with False inside Found(1) rd qb tl show ?thesis
        by (intro gettag_goes_on [of r "q + 1"]) (simp_all add: eol_def)
    qed (use gettag_at_line_start [OF assms(1-3) qb(1,2) Found(1,4) _ before_q] rd in auto)
  qed
qed

lemma gettag_loop_correct:
  assumes "good_tag tag" "ptr + len \<le> length m"
    and "ptr \<le> r" "r \<le> ptr + len" "ptr + len - r < fuel"
    and "\<forall>k. ptr \<le> k \<and> k < r \<longrightarrow> \<not> has_tag_line m ptr len tag k"
  shows "\<exists>res. gettag_loop fuel m ptr len tag r = Some res \<and> tag_result m ptr len tag res"
  using assms(3-)
proof (induction fuel arbitrary: r)
  case (Suc fuel)
  have "gettag_advances fuel m ptr len tag r"
    using gettag_step [OF assms(1,2) Suc.prems(1,2)] Suc.prems(4) by (simp add: no_tag_line_before_def)
  then consider (ends) "\<exists>res. gettag_loop (Suc fuel) m ptr len tag r = Some res \<and> tag_result m ptr len tag res"
    | (on) r' where "r < r'" "r' \<le> ptr + len" "no_tag_line_before m ptr len tag r'"
        "gettag_loop (Suc fuel) m ptr len tag r = gettag_loop fuel m ptr len tag r'"
    unfolding gettag_advances_def by blast
  then show ?case
  proof cases
    case on
    have "\<exists>res. gettag_loop fuel m ptr len tag r' = Some res \<and> tag_result m ptr len tag res"
      using on(1-3) Suc.prems(1,3) by (intro Suc.IH) (simp_all add: no_tag_line_before_def)
    then show ?thesis unfolding on(4) .
  qed
qed simp

text \<open>The scanner is total on a region of its memory and finds the first tag line of it.\<close>

lemma gettag_correct:
  assumes "good_tag tag" "ptr + len \<le> length m"
  shows "\<exists>res. gettag m ptr len tag = Some res \<and>
    (if 1 < len then tag_result m ptr len tag res else res = (None, 0))"
proof (cases "1 < len")
  case False
  then show ?thesis by (simp add: gettag_def)
next
  case True
  have "\<exists>res. gettag_loop (Suc len) m ptr len tag ptr = Some res \<and> tag_result m ptr len tag res"
    using assms by (intro gettag_loop_correct) auto
  with True show ?thesis by (simp add: gettag_def del: gettag_loop.simps)
qed

lemma gettag_defined: "good_tag tag \<Longrightarrow> ptr + len \<le> length m \<Longrightarrow> gettag m ptr len tag \<noteq> None"
  using gettag_correct by fastforce

text \<open>What a caller may assume of a returned value: it lies inside the region, before its end.\<close>

lemma gettag_SomeD:
  assumes "good_tag tag" "ptr + len \<le> length m" "gettag m ptr len tag = Some res"
  shows "tag_result m ptr len tag res \<or> res = (None, 0)"
  using gettag_correct [OF assms(1,2)] assms(3) by (auto split: if_splits)

lemma gettag_value_bounds:
  assumes "good_tag tag" "ptr + len \<le> length m" "gettag m ptr len tag = Some (Some s, l)"
  shows "ptr + length tag \<le> s \<and> s + l < ptr + len"
  using gettag_SomeD [OF assms] by (auto simp: tag_result_def is_tag_line_def)

lemma gettag_NULL_length:
  assumes "good_tag tag" "ptr + len \<le> length m" "gettag m ptr len tag = Some (None, l)"
  shows "l = 0"
  using gettag_SomeD [OF assms] by (auto simp: tag_result_def)

section \<open>The event number of an rtpmap line\<close>

definition dec_value :: "byte list \<Rightarrow> int" where
  "dec_value ds = foldl (\<lambda>v d. 10 * v + digit_val d) 0 ds"

lemma dec_digits_append:
  "list_all isdigit ds \<Longrightarrow> \<not> isdigit b \<Longrightarrow>
   dec_digits v (ds @ b # bs) = Some (foldl (\<lambda>v d. 10 * v + digit_val d) v ds, b # bs)"
  by (induction ds arbitrary: v) auto

lemma isdigit_simps:
  "isdigit d \<Longrightarrow> \<not> isspace d \<and> d \<noteq> 45 \<and> d \<noteq> 43 \<and> d \<noteq> 32 \<and> d \<noteq> 0"
  by (auto simp: isdigit_def isspace_def word_le_nat_alt)

lemma digit_val_range: "isdigit d \<Longrightarrow> 0 \<le> digit_val d \<and> digit_val d \<le> 9"
  by (auto simp: isdigit_def digit_val_def word_le_def uint_sub_if')

lemma dec_value_bound:
  assumes "list_all isdigit ds"
  shows "0 \<le> dec_value ds \<and> dec_value ds < 10 ^ length ds"
  using assms
proof (induction ds rule: rev_induct)
  case Nil
  then show ?case by (simp add: dec_value_def)
next
  case (snoc d ds)
  then have "0 \<le> dec_value ds" "dec_value ds < 10 ^ length ds" "isdigit d" by simp_all
  then show ?case using digit_val_range [of d] by (simp add: dec_value_def)
qed

lemma atol_digits:
  assumes "list_all isdigit ds" "ds \<noteq> []" "length ds \<le> 18" "\<not> isdigit b"
  shows "atol (ds @ b # bs) = Some (dec_value ds)"
proof -
  from assms obtain d ds' where d: "ds = d # ds'" "isdigit d" by (cases ds) auto
  then have "skip_ws (ds @ b # bs) = Some (ds @ b # bs)" "sign_split (ds @ b # bs) = (False, ds @ b # bs)"
    using isdigit_simps [of d] by (simp_all add: sign_split_def)
  moreover have "dec_digits 0 (ds @ b # bs) = Some (dec_value ds, b # bs)"
    using assms by (simp add: dec_digits_append dec_value_def)
  moreover have "clamp_long (dec_value ds) = dec_value ds"
  proof -
    have "(10 :: int) ^ length ds \<le> 10 ^ 18" using assms(3) by (intro power_increasing) simp_all
    with dec_value_bound [OF assms(1)] show ?thesis by (simp add: clamp_long_def)
  qed
  ultimately show ?thesis by (simp add: atol_def)
qed

lemma is_tag_line_unique:
  assumes "is_tag_line m ptr len tag i s l" "is_tag_line m ptr len tag i s' l'"
  shows "s = s' \<and> l = l'"
proof -
  have s: "\<not> s < s'" "\<not> s' < s"
    using assms range_allD [where P = "\<lambda>j. m ! j = SP"] by (auto simp: is_tag_line_def)
  then have "s = s'" by simp
  then have "\<not> l < l'" "\<not> l' < l"
    using assms range_allD [where P = "\<lambda>j. \<not> eol (m ! j)"] by (auto simp: is_tag_line_def)
  with \<open>s = s'\<close> show ?thesis by simp
qed

lemma first_tag_line_unique:
  assumes "is_tag_line m ptr len tag i s l" "is_tag_line m ptr len tag i' s' l'"
    and "\<forall>k. ptr \<le> k \<and> k < i \<longrightarrow> \<not> has_tag_line m ptr len tag k"
    and "\<forall>k. ptr \<le> k \<and> k < i' \<longrightarrow> \<not> has_tag_line m ptr len tag k"
  shows "s = s' \<and> l = l'"
proof -
  have "has_tag_line m ptr len tag i" "has_tag_line m ptr len tag i'" "ptr \<le> i" "ptr \<le> i'"
    using assms by (auto simp: has_tag_line_def is_tag_line_def)
  with assms(3,4) have "i = i'" by (metis linorder_neqE_nat)
  with assms show ?thesis using is_tag_line_unique by blast
qed

text \<open>
  C15: on any region of its memory longer than one byte, \<open>gettag\<close> returns the value of the first
  line of the region that starts with the tag and is terminated: the pointer past the tag and its
  spaces with the length up to the CR or LF; and it returns NULL with length 0 exactly when there
  is no such line.
\<close>

theorem gettag_first_tag_line:
  assumes "good_tag tag" "1 < len" "ptr + len \<le> length m"
  shows "(gettag m ptr len tag = Some (Some s, l) \<longleftrightarrow>
           (\<exists>i. is_tag_line m ptr len tag i s l \<and>
                (\<forall>k. ptr \<le> k \<and> k < i \<longrightarrow> \<not> has_tag_line m ptr len tag k))) \<and>
         (gettag m ptr len tag = Some (None, 0) \<longleftrightarrow> (\<forall>i\<ge>ptr. \<not> has_tag_line m ptr len tag i))"
proof -
  from gettag_correct [OF assms(1,3)] assms(2) obtain p n where
    g: "gettag m ptr len tag = Some (p, n)" "tag_result m ptr len tag (p, n)" by auto
  show ?thesis
  proof (cases p)
    case None
    with g have n: "n = 0" and no: "\<forall>i\<ge>ptr. \<not> has_tag_line m ptr len tag i"
      by (simp_all add: tag_result_def)
    then have "\<not> is_tag_line m ptr len tag i s l" for i
      by (metis has_tag_line_def is_tag_line_def)
    with None g(1) n no show ?thesis by simp
  next
    case (Some s')
    with g(2) obtain i' where i': "is_tag_line m ptr len tag i' s' n"
      "\<forall>k. ptr \<le> k \<and> k < i' \<longrightarrow> \<not> has_tag_line m ptr len tag k"
      by (auto simp: tag_result_def)
    then have "\<not> (\<forall>i\<ge>ptr. \<not> has_tag_line m ptr len tag i)"
      by (metis has_tag_line_def is_tag_line_def)
    moreover have "(\<exists>i. is_tag_line m ptr len tag i s l \<and>
        (\<forall>k. ptr \<le> k \<and> k < i \<longrightarrow> \<not> has_tag_line m ptr len tag k)) \<longleftrightarrow> s' = s \<and> n = l"
      using i' first_tag_line_unique by blast
    ultimately show ?thesis using Some g(1) by simp
  qed
qed

text \<open>A packet with the tag inside a line first, then at the start of one.\<close>

definition gettag_example :: mem where
  "gettag_example = str ''X-i: i:0'' @ [LF] @ str ''i:  7'' @ [CR, LF]"

theorem gettag_first_tag_line_witness:
  "gettag gettag_example 0 16 (str ''i:'') = Some (Some 13, 1) \<and>
   (\<exists>i. is_tag_line gettag_example 0 16 (str ''i:'') i 13 1)"
proof -
  have g: "good_tag (str ''i:'')" "0 + 16 \<le> length gettag_example" by code_simp+
  have e: "gettag gettag_example 0 16 (str ''i:'') = Some (Some 13, 1)" by code_simp
  from gettag_first_tag_line [OF g(1) _ g(2), of 13 1] e show ?thesis by auto
qed

text \<open>
  For a non-empty tag without line ends, \<open>gettag\<close> always returns (its loop terminates), reads
  only bytes of the region it was given, and a value it returns lies inside the region with at
  least its line end after it.
\<close>

theorem gettag_safe:
  assumes "good_tag tag" "ptr + len \<le> length m"
  shows "\<exists>r l. gettag m ptr len tag = Some (r, l) \<and>
    (case r of None \<Rightarrow> l = 0 | Some s \<Rightarrow> ptr + length tag \<le> s \<and> s + l < ptr + len)"
proof -
  from gettag_defined [OF assms] obtain r l where "gettag m ptr len tag = Some (r, l)" by auto
  then show ?thesis
    using gettag_value_bounds [OF assms] gettag_NULL_length [OF assms]
    by (cases r) auto
qed

theorem gettag_safe_witness:
  "\<exists>r l. gettag gettag_example 9 7 (str ''i:'') = Some (r, l) \<and>
    (case r of None \<Rightarrow> l = 0 | Some s \<Rightarrow> 9 + length (str ''i:'') \<le> s \<and> s + l < 9 + 7)"
proof -
  have "good_tag (str ''i:'')" "9 + 7 \<le> length gettag_example" by code_simp+
  then show ?thesis by (rule gettag_safe)
qed

lemma strncmp_lit_digit: "isdigit d \<Longrightarrow> strncmp_lit rtpmap_te (d # r) = Some False"
  using isdigit_simps [of d] by (simp add: rtpmap_te_def)

lemma strncmp_lit_no_digits:
  assumes "list_all isdigit ds" "k < length ds"
  shows "strncmp_lit rtpmap_te (drop k ds @ r) = Some False"
proof -
  have "drop k ds = ds ! k # drop (Suc k) ds" using assms(2) by (simp add: Cons_nth_drop_Suc)
  then show ?thesis using assms by (simp add: strncmp_lit_digit list_all_length)
qed

lemma strncmp_lit_self: "strncmp_lit lit (lit @ r) = Some True"
  by (simp add: strncmp_lit_True)



section \<open>The scanner as an interface\<close>

text \<open>
  What the SIP and SDP parsers rely on: on a region of the memory a scan for a header returns, a
  value it finds lies inside the region with at least one byte after it, and a missing header has
  length 0. The lemmas are the steps the parsers take on a scanned value.
\<close>

locale tag_scanner =
  fixes scan :: "mem \<Rightarrow> nat \<Rightarrow> nat \<Rightarrow> byte list \<Rightarrow> (nat option \<times> nat) option"
  assumes scan_defined: "good_tag tag \<Longrightarrow> p + n \<le> length m \<Longrightarrow> scan m p n tag \<noteq> None"
    and scan_bounds: "good_tag tag \<Longrightarrow> p + n \<le> length m \<Longrightarrow> scan m p n tag = Some (Some s, l) \<Longrightarrow>
      p \<le> s \<and> s + l < p + n"
    and scan_null: "good_tag tag \<Longrightarrow> p + n \<le> length m \<Longrightarrow> scan m p n tag = Some (None, l) \<Longrightarrow> l = 0"
begin

lemma scan_obtain:
  assumes "good_tag tag" "p + n \<le> length m"
  obtains t l where "scan m p n tag = Some (t, l)"
  using scan_defined [OF assms] by auto

lemma value_search_defined:
  assumes "good_tag tag" "p + n \<le> length m" "scan m p n tag = Some (t, l)" "needle \<noteq> []"
  shows "memmem m t l needle \<noteq> None"
proof (cases t)
  case None
  with scan_null [OF assms(1,2)] assms(3) have "l = 0" by simp
  with None memmem_NULL [OF assms(4)] show ?thesis by simp
next
  case (Some s)
  with scan_bounds [OF assms(1,2)] assms(3) have "s + l < p + n" by simp
  with Some assms(2) show ?thesis using memmem_defined [of s l m needle] by simp
qed

lemma value_search_bounds:
  assumes "good_tag tag" "p + n \<le> length m" "scan m p n tag = Some (t, l)" "needle \<noteq> []"
    and "memmem m t l needle = Some (Some q)"
  shows "\<exists>s. t = Some s \<and> s \<le> q \<and> q + length needle \<le> s + l \<and> s + l < p + n"
proof (cases t)
  case None
  with scan_null [OF assms(1,2)] assms(3) have "l = 0" by simp
  with None memmem_NULL [OF assms(4)] assms(5) show ?thesis by simp
next
  case (Some s)
  with scan_bounds [OF assms(1,2)] assms(3) have "s + l < p + n" by simp
  with Some assms(2,5) show ?thesis using memmem_bounds [of s l m needle q] by simp
qed

lemma value_region:
  assumes "good_tag tag" "p + n \<le> length m" "scan m p n tag = Some (Some s, l)" "k \<le> l"
  shows "region m s k = Some (take k (drop s m))"
  using scan_bounds [OF assms(1-3)] assms(2,4) by (simp add: region_def)

lemma value_terminated:
  assumes "good_tag tag" "p + n \<le> length m" "scan m p n tag = Some (Some s, l)"
    and "0 \<in> set (drop (p + n) m)"
  shows "0 \<in> set (drop s m)"
proof -
  have "s \<le> p + n" using scan_bounds [OF assms(1-3)] by simp
  then show ?thesis using set_drop_subset_set_drop [of s "p + n" m] assms(4) by blast
qed

end

interpretation hdr: tag_scanner gettag
  using gettag_defined gettag_NULL_length
  by unfold_locales (auto dest: gettag_value_bounds)

text \<open>\<open>sdp_get_rtpmap_event\<close> reads up to 19 bytes past the NUL of the SDP body, but no more.\<close>

lemma strncmp_lit_defined_length: "length lit \<le> length s \<Longrightarrow> strncmp_lit lit s \<noteq> None"
  by (induction lit s rule: strncmp_lit.induct) auto

lemma length_rtpmap_te: "length rtpmap_te = 17"
  by (simp add: rtpmap_te_def)

lemma good_rtpmap_tag: "good_tag (str ''a=rtpmap:'')"
  by (simp add: good_tag_def)

lemma sdp_get_rtpmap_event_defined:
  assumes "strlen (drop sdp m) = Some n" "n < 2 ^ 32" "sdp + n + 19 \<le> length m"
  shows "sdp_get_rtpmap_event m sdp \<noteq> None"
proof -
  have n: "unat (word_of_nat n :: u32) = n"
    using assms(2) by (simp add: unat_of_nat take_bit_eq_mod)
  have reg: "sdp + n \<le> length m" using assms(3) by simp
  obtain t l where g: "gettag m sdp n (str ''a=rtpmap:'') = Some (t, l)"
    using hdr.scan_obtain [OF good_rtpmap_tag reg] .
  show ?thesis
  proof (cases t)
    case None
    with assms(1) n g show ?thesis by (simp add: sdp_get_rtpmap_event_def)
  next
    case (Some s)
    from assms(1) obtain u where u: "c_str (drop sdp m) = Some u" "length u = n"
      by (auto simp: strlen_def)
    have s: "sdp \<le> s" "s + l < sdp + n"
      using hdr.scan_bounds [OF good_rtpmap_tag reg] g Some by auto
    have cmp: "strncmp_lit rtpmap_te (drop (s + k) m) \<noteq> None" if "k \<le> 3" for k
      using s assms(3) that by (intro strncmp_lit_defined_length) (simp add: length_rtpmap_te)
    have "drop sdp m ! n = 0" "sdp + n < length m"
      using u c_str_SomeD [OF u(1)] nth_length_takeWhile [of "\<lambda>b. b \<noteq> 0" "drop sdp m"]
        c_str_length [OF u(1)] by auto
    then have "0 \<in> set (drop (sdp + n) m)"
      by (metis Cons_nth_drop_Suc add_leD1 less_imp_le_nat list.set_intros(1) nth_drop)
    then have "0 \<in> set (drop s m)"
      using hdr.value_terminated [OF good_rtpmap_tag reg] g Some by blast
    then have "atol (drop s m) \<noteq> None" by (rule atol_defined)
    then show ?thesis
      using assms(1) n g Some cmp [of 1] cmp [of 2] cmp [of 3]
      by (auto simp: sdp_get_rtpmap_event_def Let_def)
  qed
qed

section \<open>Examples of the unit test\<close>

lemma sdp_get_rtpmap_event_unit_tests:
  "sdp_get_rtpmap_event (str ''Garbage'' @ [CR, LF, NUL]) 0 = Some 0"
  "sdp_get_rtpmap_event (str ''a=rtpmap:1 telephone-event/8000'' @ [CR, LF, NUL]) 0 = Some 1"
  "sdp_get_rtpmap_event (str ''a=rtpmap:123 telephone-event/8000'' @ [CR, LF, NUL]) 0 = Some 123"
  "sdp_get_rtpmap_event (str ''a=rtpmap:333 telephone-event/8000'' @ [CR, LF, NUL]) 0 = Some 0"
  "sdp_get_rtpmap_event (str ''a=rtpmap:1234 telephone-event/8000'' @ [CR, LF, NUL]) 0 = Some 0"
  by (code_simp, code_simp, code_simp, code_simp, code_simp)

end
