(* ===== verification/SipParse.thy ===== *)
theory SipParse
  imports Strlib
begin

text \<open>
  The text parsers of \<open>pcapsipdump.cpp\<close>: the request method, the user part of From and To, the
  media address and port of an SDP body, the SSRC of an RTP or RTCP packet and the \<open>-B\<close> size.
  Pointers are indices into the packet memory; \<open>long\<close> has 64 bits (LP64).
\<close>

section \<open>get\_method\<close>

text \<open>The result is the returned flag with the C string left in \<open>sip_method\<close>.\<close>

definition get_method :: "mem \<Rightarrow> nat \<Rightarrow> nat \<Rightarrow> (bool \<times> byte list) option" where
  "get_method m data sip_method_size = do {
     bs \<leftarrow> region m data (sip_method_size - 1);
     let sip_method = bs @ [SP];
     p \<leftarrow> strchr sip_method SP;
     case p of
       None \<Rightarrow> Some (False, [])
     | Some p \<Rightarrow>
         if list_all isupper (take p sip_method) then Some (True, take p sip_method)
         else Some (False, []) }"

section \<open>get\_sip\_peername\<close>

text \<open>
  \<open>peername\<close> is the caller's array; it is returned as the function leaves it. \<open>data_len\<close> is an
  \<open>int\<close> that is sign-extended when it is passed on to \<open>gettag\<close>.
\<close>

definition peername_fail :: "byte list \<Rightarrow> (int \<times> byte list) option" where
  "peername_fail peername = do {
     peername \<leftarrow> put_bytes peername (str ''empty'' @ [NUL]); Some (1, peername) }"

definition get_sip_peername ::
  "mem \<Rightarrow> nat \<Rightarrow> u32 \<Rightarrow> byte list \<Rightarrow> byte list \<Rightarrow> (int \<times> byte list) option" where
  "get_sip_peername m data data_len tag peername = do {
     (t, tl) \<leftarrow> gettag m data (unat (scast data_len :: u64)) tag;
     r \<leftarrow> memmem m t tl (str ''sip:'');
     r \<leftarrow> (if r = None then memmem m t tl (str ''tel:'') else Some r);
     case r of
       None \<Rightarrow> peername_fail peername
     | Some r0 \<Rightarrow> do {
         let r = r0 + 4;
         r2 \<leftarrow> memmem m t tl (str ''@'');
         r2 \<leftarrow> (if r2 = None then memmem m t tl (str ''>'') else Some r2);
         case r2 of
           None \<Rightarrow> peername_fail peername
         | Some r2 \<Rightarrow>
             if r2 \<le> r then peername_fail peername
             else do {
               name \<leftarrow> region m r (r2 - r);
               peername \<leftarrow> put_bytes peername (name @ [NUL]);
               Some (0, peername) } } }"

section \<open>get\_ip\_port\_from\_sdp\<close>

text \<open>The result is the returned code with the values left in \<open>*addr\<close> and \<open>*port\<close>.\<close>

definition get_ip_port_from_sdp :: "mem \<Rightarrow> nat \<Rightarrow> nat \<Rightarrow> (int \<times> u32 \<times> u16) option" where
  "get_ip_port_from_sdp m sdp sdplen = do {
     (s, l) \<leftarrow> gettag m sdp sdplen (str ''c=IN IP4 '');
     bs \<leftarrow> (case s of
             Some s \<Rightarrow> region m s (min l 19)
           | None \<Rightarrow> if min l 19 = 0 then Some [] else None);
     addr \<leftarrow> inet_addr (bs @ replicate (20 - length bs) NUL);
     if (ucast addr :: u64) = -1 then Some (1, 0, 0)
     else do {
       (s, l) \<leftarrow> gettag m sdp sdplen (str ''m=audio '');
       (s, l) \<leftarrow> (if l = 0 then gettag m sdp sdplen (str ''m=image '') else Some (s, l));
       if l = 0 then Some (1, addr, 0)
       else case s of
         None \<Rightarrow> None
       | Some s \<Rightarrow> do {
           v \<leftarrow> atoi (drop s m);
           let port = (word_of_int v :: u16);
           Some (if port = 0 then (1, addr, 0) else (0, addr, port)) } } }"

section \<open>get\_ssrc\<close>

definition get_ssrc :: "mem \<Rightarrow> nat \<Rightarrow> bool \<Rightarrow> u32 option" where
  "get_ssrc m udp_packet_data_pointer is_rtcp =
     map_option ntohl (ld32 m (udp_packet_data_pointer + (if is_rtcp then 4 else 8)))"

section \<open>parse\_size\_string\<close>

text \<open>
  The argument is the C string without its NUL. \<open>scan_lld\<close> and \<open>scan_word\<close> are the two
  conversions of \<open>sscanf (s, "%lld%31s", ...)\<close>; a conversion that does not match leaves its
  variable at the initial value.
\<close>

definition scan_lld :: "byte list \<Rightarrow> (int \<times> byte list) option" where
  "scan_lld s =
     (let (neg, t) = sign_split (dropWhile isspace s); ds = takeWhile isdigit t;
          v = foldl (\<lambda>v d. 10 * v + digit_val d) 0 ds
      in if ds = [] then None else Some (clamp_long (if neg then - v else v), dropWhile isdigit t))"

definition scan_word :: "nat \<Rightarrow> byte list \<Rightarrow> byte list" where
  "scan_word n s = take n (takeWhile (\<lambda>b. \<not> isspace b) (dropWhile isspace s))"

definition size_multipliers :: "(byte list \<times> u64) list" where
  "size_multipliers =
     [(str '''', 1), (str ''b'', 1), (str ''byte'', 1), (str ''bytes'', 1),
      (str ''kb'', 1000), (str ''kib'', 1024),
      (str ''mb'', 1000 * 1000), (str ''mib'', 1024 * 1024),
      (str ''gb'', 1000 * 1000 * 1000), (str ''gib'', 1024 * 1024 * 1024)]"

definition parse_size_string :: "byte list \<Rightarrow> int" where
  "parse_size_string s =
     (if length s \<ge> 32 then 0
      else
        let (result, multiplier) =
              (case scan_lld s of None \<Rightarrow> (0, []) | Some (v, rest) \<Rightarrow> (v, scan_word 31 rest))
        in case find (\<lambda>(text, value). map tolower text = map tolower multiplier) size_multipliers of
             Some (_, value) \<Rightarrow> sint (word_of_int result * value)
           | None \<Rightarrow> 0)"

section \<open>What the parsers compute\<close>

lemma strchr_found:
  "k < length s \<Longrightarrow> s ! k = c \<Longrightarrow> (\<forall>j<k. s ! j \<noteq> c \<and> s ! j \<noteq> 0) \<Longrightarrow> strchr s c = Some (Some k)"
proof (induction s arbitrary: k)
  case Nil
  then show ?case by simp
next
  case (Cons b bs)
  show ?case
  proof (cases k)
    case 0
    with Cons.prems show ?thesis by simp
  next
    case (Suc j)
    with Cons.prems(3) have "b \<noteq> c" "b \<noteq> 0" by auto
    moreover from Cons.prems Suc have "strchr bs c = Some (Some j)"
      by (intro Cons.IH) auto
    ultimately show ?thesis using Suc by simp
  qed
qed

lemma isupper_simps: "isupper b \<Longrightarrow> b \<noteq> SP \<and> b \<noteq> 0"
  by (auto simp: isupper_def)

lemma get_method_SomeD:
  assumes "get_method m data (Suc n) = Some (True, w)"
  shows "data + n \<le> length m \<and> length w \<le> n \<and> take (length w) (drop data m) = w \<and>
   list_all isupper w \<and> (length w = n \<or> m ! (data + length w) = SP)"
proof -
  let ?bs = "take n (drop data m)"
  from assms obtain k where len: "data + n \<le> length m" and
    k: "strchr (?bs @ [SP]) SP = Some (Some k)" and
    w: "w = take k (?bs @ [SP])" "list_all isupper w"
    unfolding get_method_def region_def Let_def
    by (fastforce split: if_splits option.splits bind_splits simp del: take_append list_all_append)
  have lb: "length ?bs = n" using len by simp
  from strchr_SomeD [OF k] lb have "k \<le> n" "(?bs @ [SP]) ! k = SP" by auto
  with lb w len show ?thesis
    by (cases "k = n") (auto simp: nth_append min_def)
qed

text \<open>
  \<open>get_method\<close> with a buffer of \<open>n + 1\<close> bytes recognises exactly the data whose first word, up
  to a space or up to \<open>n\<close> bytes, consists of upper-case letters, and leaves that word in the
  buffer. (An empty word counts: data that starts with a space is accepted.)
\<close>

theorem get_method_iff:
  "get_method m data (Suc n) = Some (True, w) \<longleftrightarrow>
   data + n \<le> length m \<and> length w \<le> n \<and> take (length w) (drop data m) = w \<and>
   list_all isupper w \<and> (length w = n \<or> m ! (data + length w) = SP)"
proof
  assume "get_method m data (Suc n) = Some (True, w)"
  then show "data + n \<le> length m \<and> length w \<le> n \<and> take (length w) (drop data m) = w \<and>
      list_all isupper w \<and> (length w = n \<or> m ! (data + length w) = SP)"
    by (rule get_method_SomeD)
next
  let ?bs = "take n (drop data m)"
  assume R: "data + n \<le> length m \<and> length w \<le> n \<and> take (length w) (drop data m) = w \<and>
   list_all isupper w \<and> (length w = n \<or> m ! (data + length w) = SP)"
  then have lb: "length ?bs = n" by (auto simp: min_def)
  have w: "take (length w) (?bs @ [SP]) = w"
    using R lb by (simp add: min_def)
  have "(?bs @ [SP]) ! length w = SP"
    using R lb by (cases "length w = n") (auto simp: nth_append)
  moreover have "(?bs @ [SP]) ! j \<noteq> SP \<and> (?bs @ [SP]) ! j \<noteq> 0" if "j < length w" for j
  proof -
    have "(?bs @ [SP]) ! j = w ! j" using w that by (metis nth_take)
    then show ?thesis using R that isupper_simps by (auto simp: list_all_length)
  qed
  ultimately have "strchr (?bs @ [SP]) SP = Some (Some (length w))"
    using lb R by (intro strchr_found) auto
  then show "get_method m data (Suc n) = Some (True, w)"
    using R w by (simp add: get_method_def region_def Let_def del: take_append list_all_append)
qed

lemma get_method_defined: "data + n \<le> length m \<Longrightarrow> get_method m data (Suc n) \<noteq> None"
  using strchr_defined [of "take n (drop data m) @ [SP]" SP]
  by (auto simp: get_method_def region_def Let_def split: option.splits)

lemma occurs_region:
  assumes "take l (drop s m) = v" "k + length nd \<le> length v"
  shows "occurs m nd (s + k) \<longleftrightarrow> occurs v nd k"
proof -
  have "k + length nd \<le> l" using assms by (metis length_take min.boundedE)
  then have "take (length nd) (drop k v) = take (length nd) (drop (s + k) m)"
    using assms(1) by (auto simp: drop_take add.commute)
  then show ?thesis by (simp add: occurs_def)
qed

lemma memmem_first:
  assumes "s + l \<le> length m" "take l (drop s m) = a @ nd @ b"
    and first: "\<And>k. k < length a \<Longrightarrow> \<not> occurs (a @ nd @ b) nd k"
  shows "memmem m (Some s) l nd = Some (Some (s + length a))"
proof -
  have l: "length (a @ nd @ b) = l" using assms(1,2) by (metis add_diff_cancel_left' diff_le_mono
      length_drop length_take min_absorb2)
  have at: "occurs m nd (s + length a)"
    using occurs_region [OF assms(2), of "length a" nd] by (simp add: occurs_def)
  from assms(1) show ?thesis
  proof (cases rule: memmem_spec [of s l m nd])
    case Null
    with at l show ?thesis by (auto dest: Null(2) [of "s + length a"])
  next
    case (Found q)
    have "q \<le> s + length a" using Found(5) [of "s + length a"] at by (cases "q \<le> s + length a") auto
    moreover have "\<not> q < s + length a"
    proof
      assume "q < s + length a"
      then have "\<not> occurs (a @ nd @ b) nd (q - s)" using Found(2) by (intro first) auto
      moreover have "q - s + length nd \<le> length (a @ nd @ b)" using Found(2,3) l by simp
      ultimately show False
        using occurs_region [OF assms(2), of "q - s" nd] Found(2,4) by simp
    qed
    ultimately show ?thesis using Found(1) by simp
  qed
qed

lemma occurs_single: "occurs v [c] k \<longleftrightarrow> k < length v \<and> v ! k = c"
  by (cases "k < length v") (auto simp: occurs_def take_Suc_conv_app_nth Cons_nth_drop_Suc [symmetric])

lemma memmem_first_char:
  assumes "s + l \<le> length m" "take l (drop s m) = a @ c # b" "c \<notin> set a"
  shows "memmem m (Some s) l [c] = Some (Some (s + length a))"
  using assms by (intro memmem_first [where b = b]) (auto simp: occurs_single nth_append)

text \<open>A URI scheme cannot start before the first colon, but for its own letters.\<close>

lemma scheme_first:
  assumes "58 \<notin> set pre" "k < length pre"
  shows "\<not> occurs (pre @ str ''sip:'' @ b) (str ''sip:'') k"
proof
  assume occ: "occurs (pre @ str ''sip:'' @ b) (str ''sip:'') k"
  from occurs_nth [OF occ, of 3] have "(pre @ str ''sip:'' @ b) ! (k + 3) = 58" by simp
  moreover have "((pre @ str ''sip'') @ 58 # b) ! (k + 3) = (pre @ str ''sip'') ! (k + 3)"
    using assms(2) by (subst nth_append) simp
  moreover have "(pre @ str ''sip'') ! (k + 3) \<in> set (pre @ str ''sip'')"
    using assms(2) by (intro nth_mem) simp
  ultimately show False using assms(1) by auto
qed

text \<open>
  C21: a From or To value of the usual form, a display part without \<open>:\<close> and \<open>@\<close>, then
  \<open>sip:\<close>, a user part and \<open>@\<close>, yields return code 0 and exactly the user part as a C string in
  the caller's array; and when the user part does not fit that array the copy overruns it
  (undefined behaviour: the size argument is never used).
\<close>

theorem peername_user_part:
  assumes "gettag m data (unat (scast data_len :: u64)) tag = Some (Some s, l)"
    and "s + l \<le> length m"
    and v: "take l (drop s m) = pre @ str ''sip:'' @ user @ str ''@'' @ post"
    and "58 \<notin> set pre" "64 \<notin> set pre" "64 \<notin> set user" "user \<noteq> []"
  shows "get_sip_peername m data data_len tag peername =
    (if length user < length peername
     then Some (0, user @ [NUL] @ drop (length user + 1) peername)
     else None)"
proof -
  have sip: "memmem m (Some s) l (str ''sip:'') = Some (Some (s + length pre))"
    using assms(2) v scheme_first [OF assms(4), of _ "user @ str ''@'' @ post"]
    by (intro memmem_first) auto
  have v': "take l (drop s m) = (pre @ str ''sip:'' @ user) @ 64 # post" using v by simp
  have at: "memmem m (Some s) l (str ''@'') = Some (Some (s + length pre + 4 + length user))"
    using memmem_first_char [OF assms(2) v'] assms(5,6) by simp
  let ?r = "s + (length pre + 4)"
  have len: "length pre + 4 + length user < l"
  proof -
    have "length (take l (drop s m)) \<le> l" by simp
    then show ?thesis unfolding v by simp
  qed
  have "region m ?r (length user) = Some (take (length user) (drop ?r m))"
    using len assms(2) by (simp add: region_def)
  also have "take (length user) (drop ?r m) = take (length user) (drop (length pre + 4) (take l (drop s m)))"
    using len by (simp add: drop_take add.commute [of _ s])
  also have "\<dots> = user" unfolding v by simp
  finally have name: "region m ?r (length user) = Some user" .
  show ?thesis
    using assms(1,7) sip at name
    by (simp add: get_sip_peername_def put_bytes_def Let_def add.assoc)
qed

theorem peername_user_part_witness:
  "get_sip_peername (str ''From: Al <sip:1001@h>'' @ [CR, LF]) 0 23 (str ''From:'') (replicate 8 0) =
    (if length (str ''1001'') < length (replicate 8 (0 :: byte))
     then Some (0, str ''1001'' @ [NUL] @ drop (length (str ''1001'') + 1) (replicate 8 0))
     else None)"
proof (rule peername_user_part)
  let ?m = "str ''From: Al <sip:1001@h>'' @ [CR, LF] :: mem"
  show "gettag ?m 0 (unat (scast (23 :: u32) :: u64)) (str ''From:'') = Some (Some 6, 15)"
    by code_simp
  show "take 15 (drop 6 ?m) = str ''Al <'' @ str ''sip:'' @ str ''1001'' @ str ''@'' @ str ''h>''"
    by code_simp
qed simp_all

lemma put_bytes_c_str:
  "put_bytes buf (name @ [NUL]) = Some buf' \<Longrightarrow> 0 \<notin> set name \<Longrightarrow> c_str buf' = Some name"
  by (auto simp: put_bytes_def c_str_append_NUL split: if_splits)

text \<open>
  On LP64 \<open>(long)(*addr = inet_addr (s1)) == -1\<close> compares a zero-extended 32-bit value with -1.
\<close>

lemma ucast_addr_neq: "(ucast (addr :: u32) :: u64) \<noteq> -1"
proof
  assume "(ucast addr :: u64) = -1"
  then have "bit (ucast addr :: u64) 63 = bit (-1 :: u64) 63" by simp
  then show False using bit_imp_le_length [of addr 63] by (simp add: bit_simps)
qed



text \<open>
  The error branch for the address is dead on LP64. An SDP body without a connection line but
  with an \<open>m=audio\<close> port is not rejected: the function returns code 0 with the address
  255.255.255.255 (\<open>INADDR_NONE\<close>).
\<close>

theorem sdp_without_address_accepted:
  assumes "gettag m sdp n (str ''c=IN IP4 '') = Some (None, 0)"
    and "gettag m sdp n (str ''m=audio '') = Some (Some s, l)" "l \<noteq> 0"
    and "atoi (drop s m) = Some v" "0 < v" "v < 65536"
  shows "get_ip_port_from_sdp m sdp n = Some (0, INADDR_NONE, word_of_int v)"
proof -
  have "inet_addr (replicate 20 NUL) = Some INADDR_NONE" by code_simp
  moreover have "(word_of_int v :: u16) \<noteq> 0"
    using assms(5,6) by (simp add: word_of_int_eq_0_iff zdvd_not_zless)
  ultimately show ?thesis
    using assms ucast_addr_neq [of INADDR_NONE] by (simp add: get_ip_port_from_sdp_def Let_def)
qed

theorem sdp_without_address_accepted_witness:
  "get_ip_port_from_sdp (str ''m=audio 9 x'' @ [LF, NUL]) 0 12 = Some (0, INADDR_NONE, word_of_int 9)"
proof (rule sdp_without_address_accepted)
  let ?m = "str ''m=audio 9 x'' @ [LF, NUL] :: mem"
  show "gettag ?m 0 12 (str ''c=IN IP4 '') = Some (None, 0)" by code_simp
  show "gettag ?m 0 12 (str ''m=audio '') = Some (Some 8, 3)" by code_simp
  show "atoi (drop 8 ?m) = Some 9" by code_simp
qed simp_all

lemma scan_lld_number:
  assumes "list_all isdigit ds" "ds \<noteq> []" "length ds \<le> 18" "u = [] \<or> \<not> isdigit (hd u)"
  shows "scan_lld (ds @ u) = Some (dec_value ds, u)"
proof -
  from assms obtain d ds' where d: "ds = d # ds'" "isdigit d" by (cases ds) auto
  have tw: "takeWhile isdigit (ds @ u) = ds" "dropWhile isdigit (ds @ u) = u"
    using assms(1,4) by (cases u; auto simp: list_all_iff takeWhile_append dropWhile_append)+
  have "(10 :: int) ^ length ds \<le> 10 ^ 18" using assms(3) by (intro power_increasing) simp_all
  with dec_value_bound [OF assms(1)] have "clamp_long (dec_value ds) = dec_value ds"
    by (simp add: clamp_long_def)
  moreover have "dropWhile isspace (ds @ u) = ds @ u" "sign_split (ds @ u) = (False, ds @ u)"
    using d isdigit_simps [of d] by (simp_all add: sign_split_def)
  ultimately show ?thesis
    using tw assms(2) by (simp add: scan_lld_def Let_def dec_value_def)
qed

text \<open>The table has each unit once, in lower case, without digits or spaces.\<close>

lemma size_multipliers_unique:
  "list_all (\<lambda>(t, k). find (\<lambda>(text, value). map tolower text = t) size_multipliers = Some (t, k) \<and>
     list_all (\<lambda>b. \<not> isdigit b \<and> \<not> isspace b) t) size_multipliers"
  by code_simp

lemma tolower_digit_space: "isdigit b \<or> isspace b \<Longrightarrow> tolower b = b"
  by (auto simp: tolower_def isupper_def isdigit_def isspace_def word_le_nat_alt)

lemma unit_plain:
  assumes "(map tolower u, k) \<in> set size_multipliers" "b \<in> set u"
  shows "\<not> isdigit b \<and> \<not> isspace b"
proof -
  have "\<not> isdigit (tolower b) \<and> \<not> isspace (tolower b)"
    using size_multipliers_unique assms by (fastforce simp: list_all_iff)
  then show ?thesis using tolower_digit_space [of b] by auto
qed

lemma sint_word_of_int_self:
  "- (2 ^ 63) \<le> v \<Longrightarrow> v < 2 ^ 63 \<Longrightarrow> sint (word_of_int v :: u64) = v"
  by (simp add: sint_sbintrunc' signed_take_bit_int_eq_self)

text \<open>
  \<open>parse_size_string\<close> multiplies: a decimal number followed directly by one of the known
  units, in any mix of upper and lower case, denotes the number times the unit, as long as that
  product fits a \<open>long long\<close>.
\<close>

theorem parse_size_string_value:
  assumes "list_all isdigit ds" "ds \<noteq> []" "length ds \<le> 18"
    and "(map tolower u, k) \<in> set size_multipliers"
    and "length (ds @ u) < 32" "dec_value ds * uint k < 2 ^ 63"
  shows "parse_size_string (ds @ u) = dec_value ds * uint k"
proof -
  have hd: "u = [] \<or> \<not> isdigit (hd u)"
    using unit_plain [OF assms(4)] by (cases u) auto
  have plain: "\<forall>b\<in>set u. \<not> isspace b" using unit_plain [OF assms(4)] by blast
  then have tw: "takeWhile (\<lambda>b. \<not> isspace b) u = u" by simp
  have dw: "dropWhile isspace u = u" using plain by (cases u) simp_all
  have w: "scan_word 31 u = u"
    using assms(5) unfolding scan_word_def dw tw by simp
  have "find (\<lambda>(text, value). map tolower text = map tolower u) size_multipliers = Some (map tolower u, k)"
    using size_multipliers_unique assms(4) by (fastforce simp: list_all_iff)
  moreover have "sint ((word_of_int (dec_value ds) :: u64) * k) = dec_value ds * uint k"
  proof -
    have eq: "(word_of_int (dec_value ds) :: u64) * k = word_of_int (dec_value ds * uint k)"
      by (metis wi_hom_mult word_of_int_uint)
    have "- (2 ^ 63) \<le> (0 :: int)" by simp
    also have "0 \<le> dec_value ds * uint k" using dec_value_bound [OF assms(1)] by simp
    finally have "- (2 ^ 63) \<le> dec_value ds * uint k" .
    then show ?thesis
      unfolding eq using assms(6) by (rule sint_word_of_int_self)
  qed
  ultimately show ?thesis
    using assms(5) w scan_lld_number [OF assms(1-3) hd]
    by (simp add: parse_size_string_def case_prod_beta' Let_def)
qed

theorem parse_size_string_value_witness:
  "parse_size_string (str ''64'' @ str ''MiB'') = dec_value (str ''64'') * uint (1024 * 1024 :: u64)"
  by (rule parse_size_string_value) (code_simp | simp)+

section \<open>When the parsers are defined\<close>

lemma peername_fail_defined: "6 \<le> length peername \<Longrightarrow> peername_fail peername \<noteq> None"
  by (simp add: peername_fail_def put_bytes_def)

text \<open>
  \<open>get_sip_peername\<close> stays in bounds when the array is at least as long as the header value.
\<close>

text \<open>The copy of the name from \<open>r\<close> to its end, or the failure when it has none.\<close>

lemma peername_user_defined:
  assumes "6 \<le> length peername" "\<And>e. r2 = Some e \<Longrightarrow> \<not> e \<le> r \<Longrightarrow> e \<le> length m \<and> e - r < length peername"
  shows "(case r2 of
       None \<Rightarrow> peername_fail peername
     | Some r2 \<Rightarrow>
         if r2 \<le> r then peername_fail peername
         else do {
           name \<leftarrow> region m r (r2 - r);
           peername \<leftarrow> put_bytes peername (name @ [NUL]);
           Some (0, peername) }) \<noteq> None"
  using assms peername_fail_defined [OF assms(1)]
  by (cases r2) (fastforce simp: region_def put_bytes_def)+

lemma get_sip_peername_defined:
  assumes tag: "good_tag tag" and reg: "data + unat (scast data_len :: u64) \<le> length m"
    and buf: "6 \<le> length peername"
    and fits: "\<And>t l. gettag m data (unat (scast data_len :: u64)) tag = Some (t, l) \<Longrightarrow> l \<le> length peername"
  shows "get_sip_peername m data data_len tag peername \<noteq> None"
proof -
  let ?n = "unat (scast data_len :: u64)"
  obtain t l where g: "gettag m data ?n tag = Some (t, l)"
    using hdr.scan_obtain [OF tag reg] .
  note search = hdr.value_search_defined [OF tag reg g]
  note found = hdr.value_search_bounds [OF tag reg g]
  obtain a where a: "memmem m t l (str ''sip:'') = Some a" using search [of "str ''sip:''"] by auto
  obtain b where b: "memmem m t l (str ''tel:'') = Some b" using search [of "str ''tel:''"] by auto
  obtain c where c: "memmem m t l (str ''@'') = Some c" using search [of "str ''@''"] by auto
  obtain d where d: "memmem m t l (str ''>'') = Some d" using search [of "str ''>''"] by auto
  have user: "r2 \<le> length m \<and> r2 - (r0 + 4) < length peername"
    if r2: "c = Some r2 \<or> d = Some r2" and r0: "a = Some r0 \<or> b = Some r0" and lt: "\<not> r2 \<le> r0 + 4" for r0 r2
  proof -
    from r2 obtain s where s: "t = Some s" "r2 + 1 \<le> s + l" "s + l < data + ?n"
      using found [of "str ''@''" r2] found [of "str ''>''" r2] c d by auto
    from r0 have "s \<le> r0"
      using found [of "str ''sip:''" r0] found [of "str ''tel:''" r0] a b s(1) by auto
    with s fits [OF g] reg lt show ?thesis by auto
  qed
  have tail: "(case r of None \<Rightarrow> peername_fail peername | Some r0 \<Rightarrow> do {
         let r = r0 + 4;
         r2 \<leftarrow> memmem m t l (str ''@'');
         r2 \<leftarrow> (if r2 = None then memmem m t l (str ''>'') else Some r2);
         case r2 of
           None \<Rightarrow> peername_fail peername
         | Some r2 \<Rightarrow>
             if r2 \<le> r then peername_fail peername
             else do {
               name \<leftarrow> region m r (r2 - r);
               peername \<leftarrow> put_bytes peername (name @ [NUL]);
               Some (0, peername) } }) \<noteq> None" if "r = a \<or> r = b" for r
  proof (cases r)
    case None
    then show ?thesis using peername_fail_defined [OF buf] by simp
  next
    case (Some r0)
    then have "a = Some r0 \<or> b = Some r0" using that by auto
    with user have "(r2 = c \<or> r2 = d) \<longrightarrow> (\<forall>e. r2 = Some e \<and> \<not> e \<le> r0 + 4 \<longrightarrow> e \<le> length m \<and> e - (r0 + 4) < length peername)" for r2
      by blast
    then show ?thesis
      using peername_user_defined [OF buf, of c "r0 + 4" m] peername_user_defined [OF buf, of d "r0 + 4" m] Some c d
      unfolding Let_def by (cases "c = None") (simp_all del: str_Cons str_Nil not_None_eq)
  qed
  show ?thesis
    using g a b tail [of a] tail [of b]
    unfolding get_sip_peername_def
    by (cases "a = None") (simp_all del: str_Cons str_Nil not_None_eq)
qed

text \<open>Whatever it returns, the array keeps its length and holds a C string.\<close>

lemma put_bytes_NUL: "put_bytes buf (name @ [NUL]) = Some buf' \<Longrightarrow> 0 \<in> set buf'"
  by (auto simp: put_bytes_def split: if_splits)

lemma get_sip_peername_result:
  assumes "get_sip_peername m data data_len tag peername = Some (r, peername')"
  shows "length peername' = length peername \<and> 0 \<in> set peername'"
proof -
  from assms obtain name where "put_bytes peername (name @ [NUL]) = Some peername'"
    unfolding get_sip_peername_def peername_fail_def Let_def
    by (auto elim!: bind_SomeE simp del: str_Cons str_Nil
        split: option.split_asm if_split_asm prod.split_asm)
  then show ?thesis using put_bytes_length put_bytes_NUL by blast
qed

lemma sdp_good_tags:
  "good_tag (str ''c=IN IP4 '')" "good_tag (str ''m=audio '')" "good_tag (str ''m=image '')"
  by (simp_all add: good_tag_def)

lemma get_ip_port_from_sdp_defined:
  assumes reg: "sdp + n \<le> length m" and nul: "0 \<in> set (drop (sdp + n) m)"
  shows "get_ip_port_from_sdp m sdp n \<noteq> None"
proof -
  obtain c k where c: "gettag m sdp n (str ''c=IN IP4 '') = Some (c, k)"
    using hdr.scan_obtain [OF sdp_good_tags(1) reg] .
  obtain a la where a: "gettag m sdp n (str ''m=audio '') = Some (a, la)"
    using hdr.scan_obtain [OF sdp_good_tags(2) reg] .
  obtain i li where i: "gettag m sdp n (str ''m=image '') = Some (i, li)"
    using hdr.scan_obtain [OF sdp_good_tags(3) reg] .
  obtain bs where bs: "(case c of Some s \<Rightarrow> region m s (min k 19)
      | None \<Rightarrow> if min k 19 = 0 then Some [] else None) = Some bs" "length bs \<le> 19"
    using hdr.value_region [OF sdp_good_tags(1) reg, of _ k "min k 19"]
      hdr.scan_null [OF sdp_good_tags(1) reg] c
    by (cases c) auto
  then have "0 \<in> set (bs @ replicate (20 - length bs) NUL)" by simp
  then obtain addr where "inet_addr (bs @ replicate (20 - length bs) NUL) = Some addr"
    using inet_addr_defined by blast
  moreover have "atoi (drop s m) \<noteq> None" if "a = Some s \<or> i = Some s" for s
  proof (rule atoi_defined)
    show "0 \<in> set (drop s m)"
      using that a i hdr.value_terminated [OF sdp_good_tags(2) reg _ nul]
        hdr.value_terminated [OF sdp_good_tags(3) reg _ nul] by blast
  qed
  moreover have "a = None \<Longrightarrow> la = 0" "i = None \<Longrightarrow> li = 0"
    using a i hdr.scan_null [OF sdp_good_tags(2) reg] hdr.scan_null [OF sdp_good_tags(3) reg] by auto
  ultimately show ?thesis
    using c a i bs
    unfolding get_ip_port_from_sdp_def
    by (cases "la = 0"; cases a; cases i)
      (auto simp: ucast_addr_neq Let_def bind_eq_None_conv simp del: str_Cons str_Nil not_None_eq)
qed

text \<open>
  On any SDP region followed by a NUL, \<open>get_ip_port_from_sdp\<close> is defined (no read leaves the
  packet memory) and its code agrees with the port it leaves: 0 with a port other than 0, or 1 with
  port 0.
\<close>

theorem get_ip_port_from_sdp_safe:
  assumes "sdp + n \<le> length m" "0 \<in> set (drop (sdp + n) m)"
  shows "\<exists>r addr port. get_ip_port_from_sdp m sdp n = Some (r, addr, port) \<and>
    (r = 0 \<and> port \<noteq> 0 \<or> r = 1 \<and> port = 0)"
proof -
  obtain r addr port where res: "get_ip_port_from_sdp m sdp n = Some (r, addr, port)"
    using get_ip_port_from_sdp_defined [OF assms] by auto
  then have "r = 0 \<and> port \<noteq> 0 \<or> r = 1 \<and> port = 0"
    unfolding get_ip_port_from_sdp_def Let_def
    by (auto simp: bind_Some_iff simp del: str_Cons str_Nil split: option.splits if_splits prod.splits)
  with res show ?thesis by blast
qed

theorem get_ip_port_from_sdp_safe_witness:
  "\<exists>r addr port. get_ip_port_from_sdp (str ''m=audio'' @ [NUL]) 0 7 = Some (r, addr, port) \<and>
    (r = 0 \<and> port \<noteq> 0 \<or> r = 1 \<and> port = 0)"
  by (rule get_ip_port_from_sdp_safe) simp_all

lemma parse_size_string_examples:
  "parse_size_string (str ''64MiB'') = 67108864"
  "parse_size_string (str ''10 kB'') = 10000"
  "parse_size_string (str ''10 furlongs'') = 0"
  "parse_size_string (str ''MiB'') = 0"
  by (code_simp, code_simp, code_simp, code_simp)

end
