(* ===== verification/Capture.thy ===== *)
theory Capture
  imports Headers SipParse Template Calltable
begin

text \<open>
  The packet loop of \<open>main\<close> (\<open>pcapsipdump.cpp\<close>): from a captured packet to the call table, the files
  and the effects on them, with \<open>parse_sdp\<close> and the signal handlers.

  The memory \<open>m\<close> of a packet starts at \<open>pkt_data\<close> and may extend past the captured bytes (the
  capture buffer); loads and stores outside it are \<open>None\<close>. Parameters of the model are the regular
  expressions, \<open>strftime\<close>, the file system and \<open>pcap_dump_open\<close> (record \<open>env\<close>). The state of the loop is
  the record \<open>world\<close>; its \<open>log\<close> lists the effects in the order they happen.
\<close>

section \<open>State and parameters\<close>

definition RTPSAVE_NONE :: nat where "RTPSAVE_NONE = 0"
definition RTPSAVE_RTP :: nat where "RTPSAVE_RTP = 1"
definition RTPSAVE_RTP_RTCP :: nat where "RTPSAVE_RTP_RTCP = 2"
definition RTPSAVE_RTPEVENT :: nat where "RTPSAVE_RTPEVENT = 3"

lemmas rtpsave_defs = RTPSAVE_NONE_def RTPSAVE_RTP_def RTPSAVE_RTP_RTCP_def RTPSAVE_RTPEVENT_def

record pkthdr =
  tv_sec :: int
  caplen :: u32
  len :: u32

record opts =
  use_tcp :: bool
  verbosity :: int
  opt_t38only :: bool
  opt_packetbuffered :: bool
  opt_rtpsave :: nat
  opt_call_skip_n :: int
  number_filter_in_use :: bool
  opt_fntemplate :: "byte list"
  offset_to_ip :: nat

text \<open>
  A filter is whether \<open>regexec\<close> matches a C string. \<open>use_bsd\<close> is whether \<open>strlcpy\<close> is libbsd's
  (\<open>USE_BSD_STRING_H\<close>) or a name for \<open>strncpy\<close>. \<open>dump_open\<close> is whether \<open>pcap_dump_open\<close> succeeds;
  the dumpers it returns are numbered in the order they are opened (\<open>opened\<close> in the state).
\<close>

record 'fs env =
  use_bsd :: bool
  number_filter :: "byte list \<Rightarrow> bool"
  method_filter :: "byte list \<Rightarrow> bool"
  env_strftime :: "byte list \<Rightarrow> int \<Rightarrow> byte list"
  env_fs :: "'fs filesystem"
  dump_open :: "'fs \<Rightarrow> byte list \<Rightarrow> 'fs \<times> bool"

record 'fs world =
  ct :: calltable
  call_skip_cnt :: int
  last_cleanup :: u64
  fs :: 'fs
  opened :: nat
  log :: "effect list"

definition emit :: "effect list \<Rightarrow> 'fs world \<Rightarrow> 'fs world" where
  "emit fx w = w\<lparr>log := log w @ fx\<rparr>"

definition with_element :: "nat \<Rightarrow> (calltable_element \<Rightarrow> calltable_element) \<Rightarrow> 'fs world \<Rightarrow> 'fs world" where
  "with_element idx f w =
     w\<lparr>ct := (ct w)\<lparr>table := (table (ct w))[idx := f (table (ct w) ! idx)]\<rparr>\<rparr>"

text \<open>\<open>pcap_dump\<close>, with the flush of \<open>-U\<close>.\<close>

definition dump_packet :: "opts \<Rightarrow> dumper \<Rightarrow> effect list" where
  "dump_packet opts f = Dump f # (if opt_packetbuffered opts then [Dump_flush f] else [])"

text \<open>Short-circuit \<open>&&\<close> and \<open>||\<close>.\<close>

definition and_then :: "bool option \<Rightarrow> bool option \<Rightarrow> bool option" where
  "and_then a b = do { x \<leftarrow> a; if x then b else Some False }"

definition or_else :: "bool option \<Rightarrow> bool option \<Rightarrow> bool option" where
  "or_else a b = do { x \<leftarrow> a; if x then Some True else b }"

definition reads :: "('a \<Rightarrow> bool) \<Rightarrow> 'a option \<Rightarrow> bool option" where
  "reads P a = map_option P a"

section \<open>Later fragments\<close>

definition is_later_fragment4 :: "mem \<Rightarrow> nat \<Rightarrow> bool option" where
  "is_later_fragment4 m header_ip =
     and_then (reads (\<lambda>v. v = 4) (ip_version m header_ip))
       (reads (\<lambda>x. x AND htons 0x1fff > 0) (iphdr_frag_off m header_ip))"

definition aai_of_ipv4 :: "mem \<Rightarrow> nat \<Rightarrow> addr_addr_id option" where
  "aai_of_ipv4 m header_ip = do {
     s \<leftarrow> iphdr_saddr m header_ip; d \<leftarrow> iphdr_daddr m header_ip; i \<leftarrow> iphdr_id m header_ip;
     Some (Addr_addr_id s d i) }"

definition later_fragment4 :: "opts \<Rightarrow> mem \<Rightarrow> nat \<Rightarrow> 'fs world \<Rightarrow> 'fs world option" where
  "later_fragment4 opts m header_ip w = do {
     aai \<leftarrow> aai_of_ipv4 m header_ip;
     let (c, f) = get_ipfrag (ct w) aai;
     let w = w\<lparr>ct := c\<rparr>;
     case f of
       None \<Rightarrow> Some w
     | Some f \<Rightarrow> do {
         let w = emit (dump_packet opts f) w;
         frag_off \<leftarrow> iphdr_frag_off m header_ip;
         Some (if frag_off AND htons 0x2000 = 0 then w\<lparr>ct := delete_ipfrag (ct w) aai\<rparr> else w) } }"

text \<open>The upper-layer protocol of a fragment header is read as byte 40 of the IPv6 header.\<close>

definition is_udp_fragment6 :: "mem \<Rightarrow> nat \<Rightarrow> bool option" where
  "is_udp_fragment6 m header_ip =
     and_then (reads (\<lambda>v. v = 6) (ip_version m header_ip))
       (and_then (reads (\<lambda>n. n = IPPROTO_FRAGMENT) (ipv6hdr_nexthdr m header_ip))
         (reads (\<lambda>b. b = IPPROTO_UDP) (rd8 m (header_ip + 40))))"

definition is_later_fragment6 :: "mem \<Rightarrow> nat \<Rightarrow> bool option" where
  "is_later_fragment6 m header_ip =
     and_then (is_udp_fragment6 m header_ip)
       (reads (\<lambda>x. htons x AND 0xfff8 > 0) (ld16 m (header_ip + 2 * 21)))"

definition aai_of_ipv6 :: "mem \<Rightarrow> nat \<Rightarrow> addr_addr_id option" where
  "aai_of_ipv6 m header_ip = do {
     s \<leftarrow> hsaddr m header_ip; d \<leftarrow> hdaddr m header_ip;
     i \<leftarrow> fraghdr_id m (header_ip + sizeof_ipv6hdr);
     Some (Addr_addr_id s d (ucast i)) }"

definition later_fragment6 :: "opts \<Rightarrow> mem \<Rightarrow> nat \<Rightarrow> 'fs world \<Rightarrow> 'fs world option" where
  "later_fragment6 opts m header_ip w = do {
     let frag = header_ip + sizeof_ipv6hdr;
     n \<leftarrow> fraghdr_nexthdr m frag;
     if n \<noteq> IPPROTO_UDP then Some w
     else do {
       aai \<leftarrow> aai_of_ipv6 m header_ip;
       let (c, f) = get_ipfrag (ct w) aai;
       let w = w\<lparr>ct := c\<rparr>;
       case f of
         None \<Rightarrow> Some w
       | Some f \<Rightarrow> do {
           let w = emit (dump_packet opts f) w;
           x \<leftarrow> fraghdr_offset_and_more m frag;
           Some (if htons x AND 1 = 0 then w\<lparr>ct := delete_ipfrag (ct w) aai\<rparr> else w) } } }"

section \<open>Which packets are looked into\<close>

definition has_caplen :: "pkthdr \<Rightarrow> nat \<Rightarrow> bool option" where
  "has_caplen h n = Some (unat (caplen h) \<ge> n)"

definition is_candidate :: "opts \<Rightarrow> pkthdr \<Rightarrow> mem \<Rightarrow> nat \<Rightarrow> bool option" where
  "is_candidate opts h m header_ip = (
     let v = ip_version m header_ip; off = offset_to_ip opts in
     or_else (and_then (reads (\<lambda>v. v = 4) v)
              (and_then (has_caplen h (off + sizeof_iphdr + sizeof_udphdr))
                (reads (\<lambda>p. p = IPPROTO_UDP) (iphdr_protocol m header_ip))))
    (or_else (and_then (reads (\<lambda>v. v = 6) v)
              (and_then (has_caplen h (off + sizeof_ipv6hdr + sizeof_udphdr))
                (reads (\<lambda>n. n = IPPROTO_UDP) (ipv6hdr_nexthdr m header_ip))))
    (or_else (and_then (reads (\<lambda>v. v = 6) v)
              (and_then (has_caplen h (off + sizeof_ipv6hdr + sizeof_udphdr))
                (and_then (reads (\<lambda>n. n = IPPROTO_FRAGMENT) (ipv6hdr_nexthdr m header_ip))
                  (reads (\<lambda>b. b = IPPROTO_UDP) (rd8 m (header_ip + 40))))))
    (if \<not> use_tcp opts then Some False
     else or_else (and_then (reads (\<lambda>v. v = 4) v)
                   (and_then (has_caplen h (off + sizeof_iphdr + sizeof_tcphdr))
                     (reads (\<lambda>p. p = IPPROTO_TCP) (iphdr_protocol m header_ip))))
                  (and_then (reads (\<lambda>v. v = 6) v)
                   (and_then (has_caplen h (off + sizeof_ipv6hdr + sizeof_tcphdr))
                     (reads (\<lambda>p. p = IPPROTO_TCP) (iphdr_protocol m header_ip))))))))"

text \<open>The transport header, and the payload with its length: \<open>unsigned long\<close>, so it may wrap.\<close>

definition transport_header :: "mem \<Rightarrow> nat \<Rightarrow> nat option" where
  "transport_header m header_ip = do {
     v \<leftarrow> ip_version m header_ip;
     frag \<leftarrow> and_then (Some (v = 6)) (reads (\<lambda>n. n = IPPROTO_FRAGMENT) (ipv6hdr_nexthdr m header_ip));
     Some (header_ip + (if v = 4 then sizeof_iphdr else sizeof_ipv6hdr) + (if frag then 8 else 0)) }"

definition is_udp :: "mem \<Rightarrow> nat \<Rightarrow> bool option" where
  "is_udp m header_ip =
     or_else (and_then (reads (\<lambda>v. v = 4) (ip_version m header_ip))
              (reads (\<lambda>p. p = IPPROTO_UDP) (iphdr_protocol m header_ip)))
    (or_else (and_then (reads (\<lambda>v. v = 6) (ip_version m header_ip))
              (reads (\<lambda>n. n = IPPROTO_UDP) (ipv6hdr_nexthdr m header_ip)))
             (is_udp_fragment6 m header_ip))"

definition payload :: "mem \<Rightarrow> nat \<Rightarrow> nat \<Rightarrow> nat option" where
  "payload m header_ip th = do {
     udp \<leftarrow> is_udp m header_ip;
     if udp then Some (th + sizeof_udphdr)
     else do { doff \<leftarrow> tcphdr_doff m th; Some (th + unat doff * 4) } }"

definition payload_length :: "pkthdr \<Rightarrow> nat \<Rightarrow> u64" where
  "payload_length h data = ucast (min (len h) (caplen h)) - of_nat data"

section \<open>RTP\<close>

definition rtp_mode :: "opts \<Rightarrow> mem \<Rightarrow> nat \<Rightarrow> (bool \<times> u16 \<times> bool) option" where
  "rtp_mode opts m header_udp =
     (if opt_rtpsave opts = RTPSAVE_RTP \<or> opt_rtpsave opts = RTPSAVE_RTPEVENT then Some (True, 0xffff, False)
      else if opt_rtpsave opts = RTPSAVE_RTP_RTCP then do {
        is_rtcp \<leftarrow> and_then (reads (\<lambda>p. htons p AND 1 \<noteq> 0) (udphdr_source m header_udp))
                           (reads (\<lambda>p. htons p AND 1 \<noteq> 0) (udphdr_dest m header_udp));
        Some (True, 0xfffe, is_rtcp) }
      else Some (False, 0xffff, False))"

text \<open>A packet of a tracked flow of call \<open>idx\<close>. \<open>data[1]\<close> is a signed \<open>char\<close>.\<close>

definition rtp_packet :: "opts \<Rightarrow> pkthdr \<Rightarrow> mem \<Rightarrow> nat \<Rightarrow> nat \<Rightarrow> 'fs world \<Rightarrow> 'fs world option" where
  "rtp_packet opts h m data idx w =
     (case f_pcap (table (ct w) ! idx) of
        None \<Rightarrow> Some w
      | Some f \<Rightarrow> do {
          wanted \<leftarrow> (if opt_rtpsave opts \<noteq> RTPSAVE_RTPEVENT then Some True
                    else reads (\<lambda>b. sint b = uint (rtpmap_event (table (ct w) ! idx))) (rd8 m (data + 1)));
          if wanted then
            Some (emit (dump_packet opts f)
              (with_element idx (\<lambda>e. e\<lparr>last_packet_time := tv_sec h, packets := packets e + 1\<rparr>) w))
          else Some w })"

section \<open>SIP\<close>

definition parse_sdp ::
  "opts \<Rightarrow> mem \<Rightarrow> nat \<Rightarrow> nat \<Rightarrow> calltable_element \<Rightarrow> calltable_element option" where
  "parse_sdp opts m sdp sdplen ce = do {
     (r, addr, p) \<leftarrow> get_ip_port_from_sdp m sdp sdplen;
     if r \<noteq> 0 \<and> verbosity opts \<ge> 2 then Some ce
     else do {
       let ce = (if r = 0 then snd (add_ip_port ce addr p) else ce);
       event \<leftarrow> sdp_get_rtpmap_event m sdp;
       let ce = (if event \<noteq> 0 then ce\<lparr>rtpmap_event := event\<rparr> else ce);
       t38 \<leftarrow> (if opt_t38only opts then reads (\<lambda>p. p \<noteq> None) (memmem m (Some sdp) sdplen (str ''udptl t38''))
              else Some False);
       Some (if t38 then ce\<lparr>had_t38 := 1\<rparr> else ce) } }"

text \<open>\<open>gettag (data, datalen, long, &l) ? : gettag (data, datalen, short, &l)\<close>\<close>

definition gettag2 :: "mem \<Rightarrow> nat \<Rightarrow> nat \<Rightarrow> byte list \<Rightarrow> byte list \<Rightarrow> (nat option \<times> nat) option" where
  "gettag2 m data datalen long short = do {
     (s, l) \<leftarrow> gettag m data datalen long;
     if s = None then gettag m data datalen short else Some (s, l) }"

definition peername2 :: "mem \<Rightarrow> nat \<Rightarrow> u64 \<Rightarrow> byte list \<Rightarrow> byte list \<Rightarrow> byte list option" where
  "peername2 m data datalen long short = do {
     (r, name) \<leftarrow> get_sip_peername m data (ucast datalen) long (replicate 256 0);
     if r \<noteq> 0 then map_option snd (get_sip_peername m data (ucast datalen) short name)
     else Some name }"

text \<open>The counter of \<open>-l\<close>: whether this call is recorded.\<close>

definition sample_call :: "opts \<Rightarrow> int \<Rightarrow> int \<times> bool" where
  "sample_call opts cnt = (if cnt - 1 > 0 then (cnt - 1, False) else (opt_call_skip_n opts, True))"

text \<open>\<open>from\<close> and \<open>to\<close> are the arrays \<open>caller\<close> and \<open>called\<close> of the code.\<close>

definition open_file ::
  "opts \<Rightarrow> 'fs env \<Rightarrow> byte list \<Rightarrow> byte list \<Rightarrow> byte list \<Rightarrow> int \<Rightarrow> nat \<Rightarrow> 'fs world \<Rightarrow> 'fs world option" where
  "open_file opts env from to callid t idx w = do {
     fn \<leftarrow> expand_dir_template (env_strftime env) 1024 (opt_fntemplate opts @ [NUL]) from to callid t;
     fs1 \<leftarrow> (if SLASH \<in> set fn then
              map_option snd (mkdir_p (use_bsd env) (fs_stat (env_fs env)) (fs_mkdir (env_fs env)) (dirname fn) (fs w))
            else Some (fs w));
     let (fs2, success) = dump_open env fs1 fn;
     let f = (if success then Some (opened w) else None);
     name \<leftarrow> put_bytes (fn_pcap (table (ct w) ! idx)) (strlcpy (use_bsd env) 128 fn);
     Some (with_element idx (\<lambda>e. e\<lparr>f_pcap := f, fn_pcap := name\<rparr>) (emit [Dump_open fn f] (w\<lparr>fs := fs2, opened := opened w + (if success then 1 else 0)\<rparr>))) }"

definition new_call ::
  "opts \<Rightarrow> 'fs env \<Rightarrow> byte list \<Rightarrow> byte list \<Rightarrow> byte list \<Rightarrow> byte list \<Rightarrow> int \<Rightarrow> nat \<Rightarrow> 'fs world \<Rightarrow> 'fs world option" where
  "new_call opts env sip_method from to callid t idx w =
     (if method_filter env sip_method then
        let (cnt, record_it) = sample_call opts (call_skip_cnt w); w = w\<lparr>call_skip_cnt := cnt\<rparr> in
        if \<not> record_it then Some (with_element idx (\<lambda>e. e\<lparr>f_pcap := None\<rparr>) w)
        else open_file opts env from to callid t idx w
      else Some (with_element idx (\<lambda>e. e\<lparr>f_pcap := None\<rparr>) w))"

text \<open>The body of the packet, when there is one of a type that may hold SDP: its position.\<close>

definition sdp_body :: "mem \<Rightarrow> nat \<Rightarrow> nat option \<Rightarrow> nat \<Rightarrow> nat option option" where
  "sdp_body m data s l =
     (case s of
        None \<Rightarrow> Some None
      | Some s \<Rightarrow>
          if l = 0 then Some None
          else do {
            sdp \<leftarrow> strncasecmp_eq l (drop s m) (str ''application/sdp'' @ [NUL]);
            body \<leftarrow> (if sdp then strstr (drop data m) [CR, LF, CR, LF] else Some None);
            if body \<noteq> None then Some (map_option ((+) data) body)
            else do {
              multi \<leftarrow> strncasecmp_eq (min l 25) (drop s m) (str ''multipart/mixed;boundary='' @ [NUL]);
              body \<leftarrow> (if multi then strstr (drop data m) [CR, LF, CR, LF] else Some None);
              Some (map_option ((+) data) body) } })"

definition register_fragments :: "mem \<Rightarrow> nat \<Rightarrow> nat \<Rightarrow> 'fs world \<Rightarrow> 'fs world option" where
  "register_fragments m header_ip idx w = do {
     let f = f_pcap (table (ct w) ! idx);
     first4 \<leftarrow> and_then (reads (\<lambda>v. v = 4) (ip_version m header_ip))
                       (reads (\<lambda>x. x = htons 0x2000) (iphdr_frag_off m header_ip));
     w \<leftarrow> (if first4 then do {
             aai \<leftarrow> aai_of_ipv4 m header_ip; Some (w\<lparr>ct := add_ipfrag (ct w) aai f\<rparr>) }
           else Some w);
     first6 \<leftarrow> and_then (reads (\<lambda>v. v = 6) (ip_version m header_ip))
                       (reads (\<lambda>n. n = IPPROTO_FRAGMENT) (ipv6hdr_nexthdr m header_ip));
     if first6 then do {
       aai \<leftarrow> aai_of_ipv6 m header_ip; Some (w\<lparr>ct := add_ipfrag (ct w) aai f\<rparr>) }
     else Some w }"

text \<open>What is done with a SIP packet of call \<open>idx\<close>, new or known: the SDP body, the packet itself.\<close>

definition learn_sdp ::
  "opts \<Rightarrow> mem \<Rightarrow> nat \<Rightarrow> u64 \<Rightarrow> nat \<Rightarrow> 'fs world \<Rightarrow> 'fs world option" where
  "learn_sdp opts m data datalen idx w = do {
     (s, l) \<leftarrow> gettag2 m data (unat datalen) (str ''Content-Type:'') (str ''c:'');
     body \<leftarrow> sdp_body m data s l;
     case body of
       None \<Rightarrow> Some w
     | Some sdp \<Rightarrow> do {
         e \<leftarrow> parse_sdp opts m sdp (unat (datalen - of_nat (sdp - data))) (table (ct w) ! idx);
         Some (with_element idx (\<lambda>_. e) w) } }"

definition dump_sip :: "opts \<Rightarrow> bool \<Rightarrow> nat \<Rightarrow> 'fs world \<Rightarrow> 'fs world" where
  "dump_sip opts bye idx w =
     (case f_pcap (table (ct w) ! idx) of
        None \<Rightarrow> w
      | Some f \<Rightarrow> emit ([Dump f] @ (if bye then [Dump_flush f] else []) @
                        (if opt_packetbuffered opts then [Dump_flush f] else [])) w)"

definition call_packet ::
  "opts \<Rightarrow> mem \<Rightarrow> nat \<Rightarrow> nat \<Rightarrow> u64 \<Rightarrow> byte list \<Rightarrow> nat \<Rightarrow> 'fs world \<Rightarrow> 'fs world option" where
  "call_packet opts m header_ip data datalen sip_method idx w = do {
     let bye = (sip_method = str ''BYE'');
     let w = (if bye then with_element idx (\<lambda>e. e\<lparr>had_bye := 1\<rparr>) w else w);
     w \<leftarrow> learn_sdp opts m data datalen idx w;
     register_fragments m header_ip idx (dump_sip opts bye idx w) }"

definition handle_sip ::
  "opts \<Rightarrow> 'fs env \<Rightarrow> pkthdr \<Rightarrow> mem \<Rightarrow> nat \<Rightarrow> nat \<Rightarrow> u64 \<Rightarrow> byte list \<Rightarrow> 'fs world \<Rightarrow> 'fs world option" where
  "handle_sip opts env h m header_ip data datalen sip_method w = do {
     m \<leftarrow> wr8 m (data + unat datalen) 0;
     from \<leftarrow> peername2 m data datalen (str ''From:'') (str ''f:'');
     to \<leftarrow> peername2 m data datalen (str ''To:'') (str ''t:'');
     (s, l) \<leftarrow> gettag2 m data (unat datalen) (str ''Call-ID:'') (str ''i:'');
     bytes \<leftarrow> (case s of Some s \<Rightarrow> region m s l | None \<Rightarrow> Some []);
     callid \<leftarrow> put_bytes (replicate 512 0) bytes;
     callid \<leftarrow> wr8 callid l 0;
     caller_str \<leftarrow> c_str from;
     called_str \<leftarrow> c_str to;
     let number_filter_matched = (\<not> number_filter_in_use opts \<or>
           number_filter env caller_str \<or> number_filter env called_str);
     case s of
       None \<Rightarrow> Some w
     | Some s \<Rightarrow>
         (case find_by_call_id (ct w) (drop s m) l of
            Some idx \<Rightarrow> call_packet opts m header_ip data datalen sip_method idx w
          | None \<Rightarrow>
              if \<not> number_filter_matched then Some w
              else do {
                (c, idx, fx) \<leftarrow> calltable_add (ct w) (drop s m) l from to (tv_sec h);
                let w = emit fx (w\<lparr>ct := c\<rparr>);
                w \<leftarrow> new_call opts env sip_method from to callid (tv_sec h) idx w;
                call_packet opts m header_ip data datalen sip_method idx w }) }"

section \<open>One packet\<close>

definition rtp_lookup ::
  "bool \<Rightarrow> u32 option \<Rightarrow> u16 option \<Rightarrow> u16 \<Rightarrow> u32 option \<Rightarrow> calltable \<Rightarrow> (calltable \<times> (nat \<times> nat) option) option" where
  "rtp_lookup save addr p port_mask s c =
     (if \<not> save then Some (c, None)
      else do { a \<leftarrow> addr; p \<leftarrow> p; s \<leftarrow> s; Some (find_ip_port_ssrc c a (htons p AND port_mask) s) })"

definition sip_stage ::
  "opts \<Rightarrow> 'fs env \<Rightarrow> pkthdr \<Rightarrow> mem \<Rightarrow> nat \<Rightarrow> nat \<Rightarrow> u64 \<Rightarrow> 'fs world \<Rightarrow> 'fs world option" where
  "sip_stage opts env h m header_ip data datalen w = do {
     (is_method, sip_method) \<leftarrow> get_method m data 10;
     is_sip \<leftarrow> (if is_method then Some True else memcmp_eq m data (str ''SIP/2.0 ''));
     if is_sip then handle_sip opts env h m header_ip data datalen sip_method w
     else Some w }"

definition handle_payload ::
  "opts \<Rightarrow> 'fs env \<Rightarrow> pkthdr \<Rightarrow> mem \<Rightarrow> nat \<Rightarrow> 'fs world \<Rightarrow> 'fs world option" where
  "handle_payload opts env h m header_ip w = do {
     header_udp \<leftarrow> transport_header m header_ip;
     data \<leftarrow> payload m header_ip header_udp;
     let datalen = payload_length h data;
     (save, port_mask, is_rtcp) \<leftarrow> rtp_mode opts m header_udp;
     (c, hit) \<leftarrow> rtp_lookup save (hdaddr m header_ip) (udphdr_dest m header_udp) port_mask (get_ssrc m data is_rtcp) (ct w);
     let w = w\<lparr>ct := c\<rparr>;
     case hit of
       Some (idx, _) \<Rightarrow> rtp_packet opts h m data idx w
     | None \<Rightarrow> do {
         (c, hit) \<leftarrow> rtp_lookup save (hsaddr m header_ip) (udphdr_source m header_udp) port_mask (get_ssrc m data is_rtcp) (ct w);
         let w = w\<lparr>ct := c\<rparr>;
         case hit of
           Some (idx, _) \<Rightarrow> rtp_packet opts h m data idx w
         | None \<Rightarrow> sip_stage opts env h m header_ip data datalen w } }"

definition periodic_cleanup :: "int \<Rightarrow> 'fs world \<Rightarrow> 'fs world" where
  "periodic_cleanup t w =
     (if word_of_int t - last_cleanup w > 15 then
        (let (c, fx) = do_cleanup (ct w) t in emit fx (w\<lparr>ct := c, last_cleanup := word_of_int t\<rparr>))
      else w)"

definition locate_ip :: "opts \<Rightarrow> mem \<Rightarrow> nat option option" where
  "locate_ip opts m =
     (if offset_to_ip opts = sizeof_ether_header then ethernet_get_header_ip (verbosity opts) m 0
      else Some (Some (offset_to_ip opts)))"

definition process_packet ::
  "opts \<Rightarrow> 'fs env \<Rightarrow> pkthdr \<Rightarrow> mem \<Rightarrow> 'fs world \<Rightarrow> 'fs world option" where
  "process_packet opts env h m w = do {
     let w = periodic_cleanup (tv_sec h) w;
     p \<leftarrow> locate_ip opts m;
     case p of
       None \<Rightarrow> Some w
     | Some p \<Rightarrow> do {
         header_ip \<leftarrow> skip_tunnel_ip_header m p;
         later4 \<leftarrow> is_later_fragment4 m header_ip;
         if later4 then later_fragment4 opts m header_ip w
         else do {
           later6 \<leftarrow> is_later_fragment6 m header_ip;
           if later6 then later_fragment6 opts m header_ip w
           else do {
             candidate \<leftarrow> is_candidate opts h m header_ip;
             if candidate then handle_payload opts env h m header_ip w
             else Some w } } } }"

section \<open>The run\<close>

text \<open>What \<open>pcap_next_ex\<close> delivers until it ends: a timeout of the capture, or a packet.\<close>

datatype delivery = Timeout | Packet pkthdr mem

fun capture_loop :: "opts \<Rightarrow> 'fs env \<Rightarrow> delivery list \<Rightarrow> 'fs world \<Rightarrow> 'fs world option" where
  "capture_loop opts env [] w = Some w"
| "capture_loop opts env (Timeout # ds) w = capture_loop opts env ds w"
| "capture_loop opts env (Packet h m # ds) w = do {
     w \<leftarrow> process_packet opts env h m w;
     capture_loop opts env ds w }"

definition finish_capture :: "'fs world \<Rightarrow> 'fs world" where
  "finish_capture w = (let (c, fx) = do_cleanup (ct w) INT32_MAX in emit fx (w\<lparr>ct := c\<rparr>))"

definition run_capture :: "opts \<Rightarrow> 'fs env \<Rightarrow> delivery list \<Rightarrow> 'fs world \<Rightarrow> 'fs world option" where
  "run_capture opts env ds w = map_option finish_capture (capture_loop opts env ds w)"

text \<open>SIGINT and SIGTERM: the clean-up at time 0 before \<open>exit (1)\<close>.\<close>

definition signal_handler :: "'fs world \<Rightarrow> 'fs world" where
  "signal_handler w = (let (c, fx) = do_cleanup (ct w) 0 in emit fx (w\<lparr>ct := c\<rparr>))"

definition initial_world :: "int \<Rightarrow> bool \<Rightarrow> 'fs \<Rightarrow> 'fs world" where
  "initial_world timeout t38only fs0 =
     \<lparr>ct = new_calltable\<lparr>opt_absolute_timeout := timeout, erase_non_t38 := t38only\<rparr>,
      call_skip_cnt = 1, last_cleanup = 0, fs = fs0, opened = 0, log = []\<rparr>"

end
