(* ===== verification/CaptureTable.thy ===== *)
theory CaptureTable
  imports Capture
begin

text \<open>
  What the packet loop does to the call table: the sampling counter of \<open>-l\<close>, the outcomes of a packet
  at each stage of the loop as case rules, and the proof that every stage acts on the table through
  the steps of \<open>Calltable\<close>, so the table's invariant holds throughout a capture.
\<close>

section \<open>Sampling\<close>

text \<open>The counter after \<open>n\<close> new matching calls, and which of them are recorded.\<close>

fun sample_calls :: "opts \<Rightarrow> nat \<Rightarrow> int \<Rightarrow> int \<times> bool list" where
  "sample_calls opts 0 cnt = (cnt, [])"
| "sample_calls opts (Suc n) cnt =
     (let (cnt1, b) = sample_call opts cnt; (cnt2, bs) = sample_calls opts n cnt1 in (cnt2, b # bs))"

lemma dvd_shift:
  assumes "0 < (N :: nat)"
  shows "N - 1 \<le> i \<and> N dvd (i - (N - 1)) \<longleftrightarrow> N dvd Suc i"
proof (cases "N - 1 \<le> i")
  case True
  then have "i - (N - 1) = Suc i - N" "N \<le> Suc i" using assms by simp_all
  then show ?thesis using True by (simp add: dvd_minus_self)
next
  case False
  then have "\<not> N dvd Suc i" by (auto dest: dvd_imp_le)
  with False show ?thesis by simp
qed

lemma sample_calls_nth:
  assumes "opt_call_skip_n opts = int N" "0 < N"
    and "cnt = 1 + int j" "j < N" "i < n"
  shows "snd (sample_calls opts n cnt) ! i \<longleftrightarrow> j \<le> i \<and> N dvd (i - j)"
  using assms(3-5)
proof (induction n arbitrary: cnt i j)
  case 0
  then show ?case by simp
next
  case (Suc n)
  show ?case
  proof (cases j)
    case 0
    with Suc.prems(1) have step: "sample_call opts cnt = (1 + int (N - 1), True)"
      using assms(1,2) by (simp add: sample_call_def of_nat_diff)
    show ?thesis
    proof (cases i)
      case (Suc i')
      with Suc.IH [OF refl, of "N - 1" i'] Suc.prems assms(2)
      have "snd (sample_calls opts n (1 + int (N - 1))) ! i' \<longleftrightarrow> N dvd Suc i'"
        using dvd_shift [OF assms(2), of i'] by simp
      then show ?thesis using Suc 0 step by (simp add: case_prod_beta' Let_def del: of_nat_diff)
    qed (use step 0 in \<open>simp add: case_prod_beta' Let_def\<close>)
  next
    case (Suc j')
    with Suc.prems have step: "sample_call opts cnt = (1 + int j', False)"
      by (simp add: sample_call_def)
    show ?thesis
    proof (cases i)
      case (Suc i')
      with Suc.IH [OF refl, of j' i'] Suc.prems \<open>j = Suc j'\<close> step show ?thesis
        by (simp add: case_prod_beta' Let_def)
    qed (use step Suc in \<open>simp add: case_prod_beta' Let_def\<close>)
  qed
qed

text \<open>
  With \<open>-l N\<close>, of the new calls whose method matches the filter exactly every \<open>N\<close>-th is recorded,
  starting with the first: the counter starts at 1 and is set to \<open>N\<close> when a call is recorded.
\<close>

theorem every_nth_call_recorded:
  assumes "opt_call_skip_n opts = int N" "0 < N" "i < n"
  shows "snd (sample_calls opts n (call_skip_cnt (initial_world t t38 fs0))) ! i \<longleftrightarrow> N dvd i"
  using sample_calls_nth [OF assms(1,2), of 1 0 i n] assms by (simp add: initial_world_def)

definition test_opts :: opts where
  "test_opts = \<lparr>use_tcp = False, verbosity = 0, opt_t38only = False, opt_packetbuffered = False,
     opt_rtpsave = RTPSAVE_RTP_RTCP, opt_call_skip_n = 3, number_filter_in_use = False,
     opt_fntemplate = str ''%f-%t-%i.pcap'', offset_to_ip = 0\<rparr>"

theorem every_nth_call_recorded_witness:
  "snd (sample_calls test_opts 7 (call_skip_cnt (initial_world 60 False ()))) ! 6 \<longleftrightarrow> (3 :: nat) dvd 6"
  by (rule every_nth_call_recorded) (simp_all add: test_opts_def)


section \<open>The packet loop steps the call table\<close>

definition valid_idx :: "calltable \<Rightarrow> nat \<Rightarrow> bool" where
  "valid_idx c i \<longleftrightarrow> i < length (table c) \<and> is_used (table c ! i) \<noteq> 0"

lemma ct_with_element: "ct (with_element i f w) = (ct w)\<lparr>table := (table (ct w))[i := f (table (ct w) ! i)]\<rparr>"
  by (simp add: with_element_def)

lemma ct_emit [simp]: "ct (emit fx w) = ct w"
  by (simp add: emit_def)

lemma steps_inv: "(ct_step rtp now)\<^sup>*\<^sup>* c c' \<Longrightarrow> ct_inv c \<Longrightarrow> ct_inv c'"
  by (induction rule: rtranclp_induct) (auto intro: ct_step_inv)

lemma any_steps_inv: "any_step\<^sup>*\<^sup>* c c' \<Longrightarrow> ct_inv c \<Longrightarrow> ct_inv c'"
  by (induction rule: rtranclp_induct) (auto simp: any_step_def intro: ct_step_inv)

lemma valid_update: "valid_idx c i \<Longrightarrow> is_used e \<noteq> 0 \<Longrightarrow> valid_idx (c\<lparr>table := (table c)[i := e]\<rparr>) i"
  by (simp add: valid_idx_def)

lemma step_count:
  "rtp \<Longrightarrow> valid_idx (ct w) i \<Longrightarrow>
   ct_step rtp now (ct w) (ct (with_element i (\<lambda>e. e\<lparr>last_packet_time := now, packets := packets e + 1\<rparr>) w))"
  unfolding ct_with_element valid_idx_def by (blast intro: ct_step.Count)

lemma step_file:
  assumes "valid_idx (ct w) i" "f_pcap (table (ct w) ! i) = None" "length name = 128"
  shows "ct_step rtp now (ct w) (ct (with_element i (\<lambda>e. e\<lparr>f_pcap := f, fn_pcap := name\<rparr>) w))"
  using assms unfolding ct_with_element valid_idx_def by (blast intro: ct_step.Open)

lemma step_no_file:
  assumes "ct_inv (ct w)" "valid_idx (ct w) i" "f_pcap (table (ct w) ! i) = None"
  shows "ct_step rtp now (ct w) (ct (with_element i (\<lambda>e. e\<lparr>f_pcap := None\<rparr>) w))"
proof -
  have "length (fn_pcap (table (ct w) ! i)) = 128"
    using assms ct_inv_element by (simp add: valid_idx_def element_ok_def)
  from ct_step.Open [OF _ _ _ this, of i "ct w" rtp now None] assms(2,3) show ?thesis
    by (simp add: valid_idx_def ct_with_element)
qed

lemma step_bye:
  "valid_idx (ct w) i \<Longrightarrow> ct_step rtp now (ct w) (ct (with_element i (\<lambda>e. e\<lparr>had_bye := b\<rparr>) w))"
  using ct_step.Mark [of i "ct w" rtp now, where b = b and t = "had_t38 (table (ct w) ! i)"
      and r = "rtpmap_event (table (ct w) ! i)"]
  by (simp add: valid_idx_def ct_with_element)

lemma rtp_lookup_steps:
  assumes "rtp_lookup save a p m s c = Some (c', hit)" "ct_inv c"
  shows "(ct_step rtp now)\<^sup>*\<^sup>* c c' \<and> (case hit of None \<Rightarrow> True | Some (i, r) \<Rightarrow> valid_idx c' i)"
proof (cases save)
  case True
  with assms(1) obtain a' p' s' where f: "find_ip_port_ssrc c a' p' s' = (c', hit)"
    by (auto simp: rtp_lookup_def elim!: bind_SomeE)
  have "ct_step rtp now c c'" using ct_step.Find [of rtp now c a' p' s'] f by simp
  moreover have "valid_idx c' i" if "hit = Some (i, r)" for i r
    using find_ip_port_ssrc_update [OF assms(2), of a' p' s' c' i r] f that
    by (auto simp: valid_idx_def)
  ultimately show ?thesis by (auto split: option.splits)
qed (use assms in \<open>auto simp: rtp_lookup_def\<close>)

lemma rtp_packet_steps:
  assumes "rtp_packet opts h m data i w = Some w'" "valid_idx (ct w) i" "rtp"
  shows "(ct_step rtp (tv_sec h))\<^sup>*\<^sup>* (ct w) (ct w')"
  using assms step_count [OF assms(3,2), of "tv_sec h"]
  by (auto simp: rtp_packet_def elim!: bind_SomeE split: option.split_asm if_split_asm)

lemma later_fragment_steps:
  "later_fragment4 opts m hdr w = Some w' \<Longrightarrow> (ct_step rtp now)\<^sup>*\<^sup>* (ct w) (ct w')"
  "later_fragment6 opts m hdr w = Some w' \<Longrightarrow> (ct_step rtp now)\<^sup>*\<^sup>* (ct w) (ct w')"
proof -
  have get: "(ct_step rtp now)\<^sup>*\<^sup>* c (fst (get_ipfrag c a))" for c a by (blast intro: ct_step.Frag_get)
  have del: "(ct_step rtp now)\<^sup>*\<^sup>* c (delete_ipfrag (fst (get_ipfrag c a)) a)" for c a
    by (meson ct_step.Frag_get ct_step.Frag_del converse_rtranclp_into_rtranclp r_into_rtranclp)
  show "(ct_step rtp now)\<^sup>*\<^sup>* (ct w) (ct w')" if "later_fragment4 opts m hdr w = Some w'"
    using that get del
    by (auto simp: later_fragment4_def case_prod_beta' Let_def elim!: bind_SomeE split: option.split_asm if_split_asm)
  show "(ct_step rtp now)\<^sup>*\<^sup>* (ct w) (ct w')" if "later_fragment6 opts m hdr w = Some w'"
    using that get del
    by (auto simp: later_fragment6_def case_prod_beta' Let_def elim!: bind_SomeE split: option.split_asm if_split_asm)
qed

lemma add_ip_port_used: "is_used (snd (add_ip_port e a p)) = is_used e"
  by (simp add: add_ip_port_def)

lemma parse_sdp_shape:
  assumes "parse_sdp opts m sdp n ce = Some e"
  shows "\<exists>e1 t r. (e1 = ce \<or> (\<exists>a p. e1 = snd (add_ip_port ce a p))) \<and>
    e = e1\<lparr>had_t38 := t, rtpmap_event := r\<rparr>"
proof -
  from assms obtain r a p where g: "get_ip_port_from_sdp m sdp n = Some (r, a, p)"
    unfolding parse_sdp_def by (auto elim!: bind_SomeE)
  let ?e1 = "if r = 0 then snd (add_ip_port ce a p) else ce"
  have eta: "x = x\<lparr>had_t38 := had_t38 x, rtpmap_event := rtpmap_event x\<rparr>" for x :: calltable_element
    by simp
  show ?thesis
  proof (cases "r \<noteq> 0 \<and> verbosity opts \<ge> 2")
    case True
    with assms g have "e = ce" by (simp add: parse_sdp_def)
    then show ?thesis using eta by blast
  next
    case False
    with assms g obtain ev t38 where
      e: "e = (let x = if ev \<noteq> 0 then ?e1\<lparr>rtpmap_event := ev\<rparr> else ?e1 in if t38 then x\<lparr>had_t38 := 1\<rparr> else x)"
      unfolding parse_sdp_def Let_def by (auto simp only: bind.simps prod.case bind_Some_iff option.inject if_False)
    have "e = ?e1\<lparr>had_t38 := had_t38 e, rtpmap_event := rtpmap_event e\<rparr>"
      unfolding e by (cases "ev = 0"; cases t38) (simp_all add: Let_def)
    then show ?thesis by (intro exI [of _ ?e1] exI [of _ "had_t38 e"] exI [of _ "rtpmap_event e"]) auto
  qed
qed

lemma parse_sdp_steps:
  assumes "parse_sdp opts m sdp n (table c ! i) = Some e" "valid_idx c i"
  shows "(ct_step rtp now)\<^sup>*\<^sup>* c (c\<lparr>table := (table c)[i := e]\<rparr>) \<and> is_used e \<noteq> 0"
proof -
  let ?e = "table c ! i"
  have mark: "(ct_step rtp now)\<^sup>*\<^sup>* c (c\<lparr>table := (table c)[i := e1\<lparr>had_t38 := t, rtpmap_event := r\<rparr>]\<rparr>)"
    if "e1 = ?e \<or> (\<exists>a p. e1 = snd (add_ip_port ?e a p))" for e1 r t
  proof -
    have used: "is_used e1 \<noteq> 0" using that assms(2) by (auto simp: valid_idx_def add_ip_port_used)
    have "(ct_step rtp now)\<^sup>*\<^sup>* c (c\<lparr>table := (table c)[i := e1]\<rparr>)"
      using that assms(2) ct_step.Learn [of i c rtp now] by (auto simp: valid_idx_def)
    moreover have "ct_step rtp now (c\<lparr>table := (table c)[i := e1]\<rparr>)
        ((c\<lparr>table := (table c)[i := e1]\<rparr>)\<lparr>table := (table (c\<lparr>table := (table c)[i := e1]\<rparr>))
          [i := (table (c\<lparr>table := (table c)[i := e1]\<rparr>) ! i)\<lparr>had_bye := had_bye e1, had_t38 := t, rtpmap_event := r\<rparr>]\<rparr>)"
      using used assms(2) by (intro ct_step.Mark) (simp_all add: valid_idx_def)
    ultimately show ?thesis using assms(2) by (simp add: valid_idx_def)
  qed
  from parse_sdp_shape [OF assms(1)] obtain e1 t r where
    e1: "e1 = ?e \<or> (\<exists>a p. e1 = snd (add_ip_port ?e a p))" "e = e1\<lparr>had_t38 := t, rtpmap_event := r\<rparr>"
    by blast
  then have "is_used e \<noteq> 0" using assms(2) by (auto simp: valid_idx_def add_ip_port_used)
  then show ?thesis unfolding e1(2) using mark [OF e1(1)] by simp
qed

lemma open_file_shape:
  assumes "open_file opts env from to callid t i w = Some w'"
  obtains fn fs2 ok f name where
    "f = (if ok then Some (opened w) else None)"
    "put_bytes (fn_pcap (table (ct w) ! i)) (strlcpy (use_bsd env) 128 fn) = Some name"
    "expand_dir_template (env_strftime env) 1024 (opt_fntemplate opts @ [NUL]) from to callid t = Some fn"
    "w' = with_element i (\<lambda>e. e\<lparr>f_pcap := f, fn_pcap := name\<rparr>)
       (emit [Dump_open fn f] (w\<lparr>fs := fs2, opened := opened w + (if ok then 1 else 0)\<rparr>))"
proof -
  from assms obtain fn fs1 name where
    f: "expand_dir_template (env_strftime env) 1024 (opt_fntemplate opts @ [NUL]) from to callid t = Some fn"
    "put_bytes (fn_pcap (table (ct w) ! i)) (strlcpy (use_bsd env) 128 fn) = Some name"
    "w' = with_element i (\<lambda>e. e\<lparr>f_pcap := (if snd (dump_open env fs1 fn) then Some (opened w) else None),
        fn_pcap := name\<rparr>) (emit [Dump_open fn (if snd (dump_open env fs1 fn) then Some (opened w) else None)]
        (w\<lparr>fs := fst (dump_open env fs1 fn), opened := opened w + (if snd (dump_open env fs1 fn) then 1 else 0)\<rparr>))"
    unfolding open_file_def case_prod_beta' Let_def by (elim bind_SomeE) blast
  from that [OF refl f(2,1,3)] show thesis .
qed

lemma open_file_steps:
  assumes "open_file opts env from to callid t i w = Some w'" "ct_inv (ct w)" "valid_idx (ct w) i"
    and "f_pcap (table (ct w) ! i) = None"
  shows "(ct_step rtp now)\<^sup>*\<^sup>* (ct w) (ct w') \<and> valid_idx (ct w') i"
  using assms(1)
proof (cases rule: open_file_shape)
  case (1 fn fs2 ok f name)
  let ?w1 = "emit [Dump_open fn f] (w\<lparr>fs := fs2, opened := opened w + (if ok then 1 else 0)\<rparr>)"
  have "length name = 128"
    using 1(2) put_bytes_length assms(2,3) ct_inv_element by (fastforce simp: valid_idx_def element_ok_def)
  then have "ct_step rtp now (ct ?w1) (ct w')" using step_file [of ?w1 i name rtp now f] assms(3,4) 1(4) by simp
  then show ?thesis using assms(3) 1(4) by (auto simp: ct_with_element valid_idx_def)
qed

lemma new_call_steps:
  assumes "new_call opts env meth from to callid t i w = Some w'" "ct_inv (ct w)" "valid_idx (ct w) i"
    and "f_pcap (table (ct w) ! i) = None"
  shows "(ct_step rtp now)\<^sup>*\<^sup>* (ct w) (ct w') \<and> valid_idx (ct w') i"
proof -
  have none: "(ct_step rtp now)\<^sup>*\<^sup>* (ct w) (ct (with_element i (\<lambda>e. e\<lparr>f_pcap := None\<rparr>) w1)) \<and>
      valid_idx (ct (with_element i (\<lambda>e. e\<lparr>f_pcap := None\<rparr>) w1)) i" if "ct w1 = ct w" for w1 :: "'a world"
    using step_no_file [of w1 i rtp now] assms(2-4) that by (auto simp: ct_with_element valid_idx_def)
  have opens: "(ct_step rtp now)\<^sup>*\<^sup>* (ct w) (ct w') \<and> valid_idx (ct w') i"
    if "open_file opts env from to callid t i (w\<lparr>call_skip_cnt := c\<rparr>) = Some w'" for c
    using open_file_steps [OF that] assms(2-4) by simp
  show ?thesis
    using assms(1) none [of w] none [of "w\<lparr>call_skip_cnt := fst (sample_call opts (call_skip_cnt w))\<rparr>"] opens
    by (auto simp: new_call_def case_prod_beta' Let_def split: if_split_asm)
qed

lemma register_fragments_steps:
  assumes "register_fragments m hdr i w = Some w'" "valid_idx (ct w) i"
  shows "(ct_step rtp now)\<^sup>*\<^sup>* (ct w) (ct w')"
proof -
  let ?f = "f_pcap (table (ct w) ! i)"
  have reg: "ct_step rtp now c (add_ipfrag c a ?f)" if "table c = table (ct w)" for c a
    using assms(2) ct_step.Frag_add [of i c rtp now a] that by (simp add: valid_idx_def)
  have table: "table (add_ipfrag c a f) = table c" for c a f by (simp add: add_ipfrag_def)
  have "(ct_step rtp now)\<^sup>*\<^sup>* (ct w) (add_ipfrag (ct w) a ?f)" for a using reg [OF refl] by blast
  moreover have "(ct_step rtp now)\<^sup>*\<^sup>* (ct w) (add_ipfrag (add_ipfrag (ct w) a ?f) b ?f)" for a b
    using reg [OF refl, of a] reg [OF table, of a ?f b] by (meson rtranclp.rtrancl_into_rtrancl r_into_rtranclp)
  ultimately show ?thesis
    using assms(1) by (auto simp: register_fragments_def Let_def table elim!: bind_SomeE split: if_split_asm)
qed

lemma learn_sdp_steps:
  assumes "learn_sdp opts m data datalen i w = Some w'" "valid_idx (ct w) i"
  shows "(ct_step rtp now)\<^sup>*\<^sup>* (ct w) (ct w') \<and> valid_idx (ct w') i"
proof -
  from assms(1) obtain body where
    "(case body of None \<Rightarrow> Some w | Some sdp \<Rightarrow> do {
         e \<leftarrow> parse_sdp opts m sdp (unat (datalen - of_nat (sdp - data))) (table (ct w) ! i);
         Some (with_element i (\<lambda>_. e) w) }) = Some w'"
    unfolding learn_sdp_def case_prod_beta' by (elim bind_SomeE) blast
  then show ?thesis
    using assms(2) parse_sdp_steps [of opts m _ _ "ct w" i]
    by (auto simp: ct_with_element valid_idx_def elim!: bind_SomeE split: option.split_asm)
qed

lemma ct_dump_sip [simp]: "ct (dump_sip opts bye i w) = ct w"
  by (simp add: dump_sip_def split: option.split)

lemma call_packet_steps:
  assumes "call_packet opts m hdr data datalen meth i w = Some w'" "valid_idx (ct w) i"
  shows "(ct_step rtp now)\<^sup>*\<^sup>* (ct w) (ct w')"
proof -
  define w1 where "w1 = (if meth = str ''BYE'' then with_element i (\<lambda>e. e\<lparr>had_bye := 1\<rparr>) w else w)"
  have s1: "(ct_step rtp now)\<^sup>*\<^sup>* (ct w) (ct w1)" "valid_idx (ct w1) i"
    using step_bye [OF assms(2), of rtp now 1] assms(2) by (auto simp: w1_def ct_with_element valid_idx_def)
  from assms(1) obtain w2 b where
    w2: "learn_sdp opts m data datalen i w1 = Some w2" "register_fragments m hdr i (dump_sip opts b i w2) = Some w'"
    unfolding call_packet_def w1_def [symmetric] Let_def by (elim bind_SomeE) blast
  have "(ct_step rtp now)\<^sup>*\<^sup>* (ct w1) (ct w2)" "valid_idx (ct w2) i" using learn_sdp_steps [OF w2(1) s1(2)] by blast+
  moreover from this(2) have "(ct_step rtp now)\<^sup>*\<^sup>* (ct w2) (ct w')" using register_fragments_steps [OF w2(2)] by simp
  ultimately show ?thesis using s1(1) by (meson rtranclp_trans)
qed

text \<open>A SIP packet either belongs to a known call, or starts a new one, or is ignored.\<close>

lemma handle_sip_cases:
  assumes "handle_sip opts env h m hdr data datalen meth w = Some w'"
  obtains (ignored) "w' = w"
  | (known) m' s l i where "find_by_call_id (ct w) (drop s m') l = Some i"
      "call_packet opts m' hdr data datalen meth i w = Some w'"
  | (new) m' s l from_buf to_buf callid c i fx w2 where "find_by_call_id (ct w) (drop s m') l = None"
      "calltable_add (ct w) (drop s m') l from_buf to_buf (tv_sec h) = Some (c, i, fx)"
      "new_call opts env meth from_buf to_buf callid (tv_sec h) i (emit fx (w\<lparr>ct := c\<rparr>)) = Some w2"
      "call_packet opts m' hdr data datalen meth i w2 = Some w'"
proof -
  from assms obtain m' from_buf to_buf s l callid matched where
    r: "(case s of
       None \<Rightarrow> Some w
     | Some s \<Rightarrow>
         (case find_by_call_id (ct w) (drop s m') l of
            Some idx \<Rightarrow> call_packet opts m' hdr data datalen meth idx w
          | None \<Rightarrow>
              if \<not> matched then Some w
              else do {
                (c, idx, fx) \<leftarrow> calltable_add (ct w) (drop s m') l from_buf to_buf (tv_sec h);
                let w = emit fx (w\<lparr>ct := c\<rparr>);
                w \<leftarrow> new_call opts env meth from_buf to_buf callid (tv_sec h) idx w;
                call_packet opts m' hdr data datalen meth idx w })) = Some w'"
    unfolding handle_sip_def case_prod_beta' Let_def by (elim bind_SomeE) blast
  show thesis
  proof (cases s)
    case None
    with r ignored show thesis by simp
  next
    case (Some s')
    show thesis
    proof (cases "find_by_call_id (ct w) (drop s' m') l")
      case (Some idx)
      with r \<open>s = Some s'\<close> known show thesis by simp
    next
      case None
      show thesis
      proof (cases matched)
        case True
        with r Some None obtain c idx fx w2 where
          "calltable_add (ct w) (drop s' m') l from_buf to_buf (tv_sec h) = Some (c, idx, fx)"
          "new_call opts env meth from_buf to_buf callid (tv_sec h) idx (emit fx (w\<lparr>ct := c\<rparr>)) = Some w2"
          "call_packet opts m' hdr data datalen meth idx w2 = Some w'"
          by (auto simp: Let_def elim!: bind_SomeE)
        with None new show thesis by blast
      qed (use r Some None ignored in simp)
    qed
  qed
qed

lemma find_valid: "find_by_call_id c cid n = Some i \<Longrightarrow> valid_idx c i"
  using find_by_call_id_bound by (simp add: valid_idx_def)

lemma calltable_add_no_file:
  assumes "ct_inv c" "calltable_add c cid n from to time = Some (c', i, fx)"
  shows "f_pcap (table c' ! i) = None"
  using assms by (cases rule: calltable_add_cases) simp

lemma handle_sip_steps:
  assumes "handle_sip opts env h m hdr data datalen meth w = Some w'" "ct_inv (ct w)"
  shows "(ct_step rtp (tv_sec h))\<^sup>*\<^sup>* (ct w) (ct w')"
  using assms(1)
proof (cases rule: handle_sip_cases)
  case ignored
  then show ?thesis by simp
next
  case (known m' s l i)
  then show ?thesis using call_packet_steps [OF known(2)] find_valid [OF known(1)] by simp
next
  case (new m' s l from_buf to_buf callid c i fx w2)
  have s1: "ct_step rtp (tv_sec h) (ct w) c" using new(1,2) by (rule ct_step.Add)
  have "find_by_call_id c (drop s m') l = Some i"
    using calltable_add_find_same [OF assms(2) new(1,2)] .
  then have "valid_idx c i" using find_by_call_id_bound by (simp add: valid_idx_def)
  moreover have "f_pcap (table c ! i) = None" using calltable_add_no_file [OF assms(2) new(2)] .
  ultimately
  have "(ct_step rtp (tv_sec h))\<^sup>*\<^sup>* c (ct w2)" "valid_idx (ct w2) i"
    using new_call_steps [OF new(3)] ct_step_inv [OF s1 assms(2)] by simp_all
  with s1 call_packet_steps [OF new(4)] show ?thesis by (meson converse_rtranclp_into_rtranclp rtranclp_trans)
qed

lemma sip_stage_steps:
  assumes "sip_stage opts env h m hdr data datalen w = Some w'" "ct_inv (ct w)"
  shows "(ct_step rtp (tv_sec h))\<^sup>*\<^sup>* (ct w) (ct w')"
proof -
  from assms(1) obtain is_sip meth where
    "(if is_sip then handle_sip opts env h m hdr data datalen meth w else Some w) = Some w'"
    unfolding sip_stage_def case_prod_beta' by (elim bind_SomeE) blast
  then show ?thesis using handle_sip_steps assms(2) by (auto split: if_split_asm)
qed

lemma rtp_mode_save: "rtp_mode opts m th = Some y \<Longrightarrow> fst y \<Longrightarrow> opt_rtpsave opts \<noteq> RTPSAVE_NONE"
  by (auto simp: rtp_mode_def rtpsave_defs elim!: bind_SomeE split: if_split_asm)

lemma rtp_lookup_save: "rtp_lookup save a p port_mask s c = Some (c', Some ik) \<Longrightarrow> save"
  by (auto simp: rtp_lookup_def split: if_split_asm)

text \<open>The three outcomes of a payload: the table is searched for both addresses of the packet first.\<close>

lemma handle_payload_cases:
  assumes "handle_payload opts env h m hdr w = Some w'"
  obtains (dest) data save a p port_mask s c i k where
      "opt_rtpsave opts \<noteq> RTPSAVE_NONE" "rtp_lookup save a p port_mask s (ct w) = Some (c, Some (i, k))"
      "rtp_packet opts h m data i (w\<lparr>ct := c\<rparr>) = Some w'"
  | (source) data save a p a' p' port_mask s c c' i k where
      "opt_rtpsave opts \<noteq> RTPSAVE_NONE"
      "rtp_lookup save a p port_mask s (ct w) = Some (c, None)"
      "rtp_lookup save a' p' port_mask s c = Some (c', Some (i, k))"
      "rtp_packet opts h m data i (w\<lparr>ct := c'\<rparr>) = Some w'"
  | (sip) data save a p a' p' port_mask s c c' where
      "rtp_lookup save a p port_mask s (ct w) = Some (c, None)"
      "rtp_lookup save a' p' port_mask s c = Some (c', None)"
      "sip_stage opts env h m hdr data (payload_length h data) (w\<lparr>ct := c'\<rparr>) = Some w'"
proof -
  have twice: "w\<lparr>ct := c, ct := c'\<rparr> = w\<lparr>ct := c'\<rparr>" for c c' by simp
  from assms obtain udp data save port_mask is_rtcp r where
    mode: "\<exists>y. rtp_mode opts m udp = Some y \<and> fst y = save" and look: "rtp_lookup save (hdaddr m hdr) (udphdr_dest m udp) port_mask (get_ssrc m data is_rtcp) (ct w) = Some r"
    and r: "(case snd r of
       Some (idx, _) \<Rightarrow> rtp_packet opts h m data idx (w\<lparr>ct := fst r\<rparr>)
     | None \<Rightarrow> do {
         r' \<leftarrow> rtp_lookup save (hsaddr m hdr) (udphdr_source m udp) port_mask (get_ssrc m data is_rtcp) (ct (w\<lparr>ct := fst r\<rparr>));
         case snd r' of
           Some (idx, _) \<Rightarrow> rtp_packet opts h m data idx (w\<lparr>ct := fst r'\<rparr>)
         | None \<Rightarrow> sip_stage opts env h m hdr data (payload_length h data) (w\<lparr>ct := fst r'\<rparr>) }) = Some w'"
    unfolding handle_payload_def Let_def case_prod_beta' twice by (elim bind_SomeE) blast
  have saved: "opt_rtpsave opts \<noteq> RTPSAVE_NONE" if "rtp_lookup save a p port_mask s c = Some (c', Some ik)" for a p s c c' ik
    using mode rtp_mode_save rtp_lookup_save [OF that] by metis
  obtain c hit where c: "r = (c, hit)" by (cases r)
  show thesis
  proof (cases hit)
    case (Some ik)
    with look r c dest saved show thesis by (cases ik) auto
  next
    case None
    with c have "r = (c, None)" by simp
    with r obtain r' where
      look': "rtp_lookup save (hsaddr m hdr) (udphdr_source m udp) port_mask (get_ssrc m data is_rtcp) c = Some r'"
      and r': "(case snd r' of
           Some (idx, _) \<Rightarrow> rtp_packet opts h m data idx (w\<lparr>ct := fst r'\<rparr>)
         | None \<Rightarrow> sip_stage opts env h m hdr data (payload_length h data) (w\<lparr>ct := fst r'\<rparr>)) = Some w'"
      by (simp only: snd_conv fst_conv option.case) (elim bind_SomeE, simp)
    from look c None have look: "rtp_lookup save (hdaddr m hdr) (udphdr_dest m udp) port_mask (get_ssrc m data is_rtcp) (ct w) = Some (c, None)"
      by simp
    obtain c' hit' where c': "r' = (c', hit')" by (cases r')
    show thesis
    proof (cases hit')
      case (Some ik)
      with look look' r' c' source saved show thesis by (cases ik) auto
    next
      case None
      with look look' r' c' sip show thesis by simp
    qed
  qed
qed

lemma handle_payload_steps:
  assumes "handle_payload opts env h m hdr w = Some w'" "ct_inv (ct w)"
  shows "(ct_step (opt_rtpsave opts \<noteq> RTPSAVE_NONE) (tv_sec h))\<^sup>*\<^sup>* (ct w) (ct w')"
  using assms(1)
proof (cases rule: handle_payload_cases)
  case (dest data save a p port_mask s c i k)
  from rtp_lookup_steps [OF dest(2) assms(2)] have s1: "(ct_step (opt_rtpsave opts \<noteq> RTPSAVE_NONE) (tv_sec h))\<^sup>*\<^sup>* (ct w) c" and v: "valid_idx c i" by auto
  have "(ct_step (opt_rtpsave opts \<noteq> RTPSAVE_NONE) (tv_sec h))\<^sup>*\<^sup>* c (ct w')" using rtp_packet_steps [OF dest(3)] v dest(1) by simp
  with s1 show ?thesis by (rule rtranclp_trans)
next
  case (source data save a p a' p' port_mask s c c' i k)
  from rtp_lookup_steps [OF source(2) assms(2)] have s1: "(ct_step (opt_rtpsave opts \<noteq> RTPSAVE_NONE) (tv_sec h))\<^sup>*\<^sup>* (ct w) c" by simp
  from rtp_lookup_steps [OF source(3) steps_inv [OF s1 assms(2)]]
  have s2: "(ct_step (opt_rtpsave opts \<noteq> RTPSAVE_NONE) (tv_sec h))\<^sup>*\<^sup>* c c'" and v: "valid_idx c' i" by auto
  have "(ct_step (opt_rtpsave opts \<noteq> RTPSAVE_NONE) (tv_sec h))\<^sup>*\<^sup>* c' (ct w')" using rtp_packet_steps [OF source(4)] v source(1) by simp
  with s1 s2 show ?thesis by (meson rtranclp_trans)
next
  case (sip data save a p a' p' port_mask s c c')
  from rtp_lookup_steps [OF sip(1) assms(2)] have s1: "(ct_step (opt_rtpsave opts \<noteq> RTPSAVE_NONE) (tv_sec h))\<^sup>*\<^sup>* (ct w) c" by simp
  note inv = steps_inv [OF s1 assms(2)]
  from rtp_lookup_steps [OF sip(2) inv] have s2: "(ct_step (opt_rtpsave opts \<noteq> RTPSAVE_NONE) (tv_sec h))\<^sup>*\<^sup>* c c'" by simp
  have "ct_inv (ct (w\<lparr>ct := c'\<rparr>))" using steps_inv [OF s2 inv] by simp
  from sip_stage_steps [OF sip(3) this] have "(ct_step (opt_rtpsave opts \<noteq> RTPSAVE_NONE) (tv_sec h))\<^sup>*\<^sup>* c' (ct w')" by simp
  with s1 s2 show ?thesis by (meson rtranclp_trans)
qed

lemma periodic_cleanup_steps: "(ct_step rtp t)\<^sup>*\<^sup>* (ct w) (ct (periodic_cleanup t w))"
  using ct_step.Clean [of rtp t "ct w"] by (auto simp: periodic_cleanup_def case_prod_beta' Let_def)

text \<open>The IP header the packet loop works on, and the outcomes of a packet.\<close>

definition ip_header :: "opts \<Rightarrow> mem \<Rightarrow> nat option option" where
  "ip_header opts m = do {
     p \<leftarrow> locate_ip opts m;
     case p of None \<Rightarrow> Some None | Some p \<Rightarrow> map_option Some (skip_tunnel_ip_header m p) }"

lemma process_packet_cases:
  assumes "process_packet opts env h m w = Some w'"
  obtains (skip) "w' = periodic_cleanup (tv_sec h) w"
  | (frag4) hdr where "ip_header opts m = Some (Some hdr)" "is_later_fragment4 m hdr = Some True"
      "later_fragment4 opts m hdr (periodic_cleanup (tv_sec h) w) = Some w'"
  | (frag6) hdr where "ip_header opts m = Some (Some hdr)" "is_later_fragment6 m hdr = Some True"
      "later_fragment6 opts m hdr (periodic_cleanup (tv_sec h) w) = Some w'"
  | (payload) hdr where "ip_header opts m = Some (Some hdr)"
      "is_later_fragment4 m hdr = Some False" "is_later_fragment6 m hdr = Some False"
      "is_candidate opts h m hdr = Some True"
      "handle_payload opts env h m hdr (periodic_cleanup (tv_sec h) w) = Some w'"
proof -
  from assms obtain p where p: "locate_ip opts m = Some p"
    unfolding process_packet_def Let_def by (elim bind_SomeE)
  show thesis
  proof (cases p)
    case None
    with assms p skip show thesis by (simp add: process_packet_def Let_def)
  next
    case (Some q)
    with assms p obtain hdr l4 where hdr: "skip_tunnel_ip_header m q = Some hdr" "is_later_fragment4 m hdr = Some l4"
      by (auto simp: process_packet_def Let_def elim!: bind_SomeE)
    with p Some have ip: "ip_header opts m = Some (Some hdr)" by (simp add: ip_header_def)
    show thesis
    proof (cases l4)
      case True
      with assms p Some hdr ip frag4 show thesis by (simp add: process_packet_def Let_def)
    next
      case l4: False
      with assms p Some hdr obtain l6 where l6: "is_later_fragment6 m hdr = Some l6"
        by (auto simp: process_packet_def Let_def elim!: bind_SomeE)
      show thesis
      proof (cases l6)
        case True
        with assms p Some hdr ip l4 l6 frag6 show thesis by (simp add: process_packet_def Let_def)
      next
        case False
        with assms p Some hdr l4 l6 obtain c where c: "is_candidate opts h m hdr = Some c"
          by (auto simp: process_packet_def Let_def elim!: bind_SomeE)
        with assms p Some hdr ip l4 l6 False skip payload show thesis
          by (cases c) (simp_all add: process_packet_def Let_def)
      qed
    qed
  qed
qed

lemma process_packet_after_cleanup:
  assumes "process_packet opts env h m w = Some w'" "ct_inv (ct w)"
  shows "(ct_step (opt_rtpsave opts \<noteq> RTPSAVE_NONE) (tv_sec h))\<^sup>*\<^sup>* (ct (periodic_cleanup (tv_sec h) w)) (ct w')"
  using assms(1)
proof (cases rule: process_packet_cases)
  case skip
  then show ?thesis by simp
next
  case (frag4 hdr)
  then show ?thesis using later_fragment_steps(1) by blast
next
  case (frag6 hdr)
  then show ?thesis using later_fragment_steps(2) by blast
next
  case (payload hdr)
  then show ?thesis using handle_payload_steps steps_inv [OF periodic_cleanup_steps assms(2)] by blast
qed

lemma process_packet_steps:
  assumes "process_packet opts env h m w = Some w'" "ct_inv (ct w)"
  shows "(ct_step (opt_rtpsave opts \<noteq> RTPSAVE_NONE) (tv_sec h))\<^sup>*\<^sup>* (ct w) (ct w')"
  using periodic_cleanup_steps process_packet_after_cleanup [OF assms] by (rule rtranclp_trans)

lemma capture_loop_steps:
  "capture_loop opts env ds w = Some w' \<Longrightarrow> ct_inv (ct w) \<Longrightarrow> any_step\<^sup>*\<^sup>* (ct w) (ct w')"
proof (induction opts env ds w rule: capture_loop.induct)
  case (3 opts env h m ds w)
  from "3.prems"(1) obtain w1 where w1: "process_packet opts env h m w = Some w1"
    "capture_loop opts env ds w1 = Some w'"
    by (auto elim!: bind_SomeE)
  note s1 = process_packet_steps [OF w1(1) "3.prems"(2)]
  from any_steps [OF s1] "3.IH" [OF w1] steps_inv [OF s1 "3.prems"(2)] show ?case by (meson rtranclp_trans)
qed simp_all

text \<open>
  C3: whatever packets are delivered, the call table after the loop is one the table operations can
  reach, so it satisfies the table's invariant: at most four flows a call, no two calls with the same
  Call-ID key, free slots zeroed.
\<close>

theorem capture_keeps_table:
  assumes "capture_loop opts env ds (initial_world timeout t38 fs0) = Some w"
  shows "any_step\<^sup>*\<^sup>* (ct (initial_world timeout t38 fs0)) (ct w) \<and> ct_inv (ct w)"
proof -
  have "ct_inv (ct (initial_world timeout t38 fs0))"
    by (simp add: initial_world_def ct_inv_def used_calls_def new_calltable_def)
  then show ?thesis using capture_loop_steps [OF assms] any_steps_inv by blast
qed

section \<open>Packets for the examples\<close>

text \<open>An IPv4 packet with a UDP header (ports \<open>sp\<close> and \<open>dp\<close> as two bytes each) and a body.\<close>

definition udp_packet :: "byte list \<Rightarrow> byte list \<Rightarrow> byte list \<Rightarrow> mem" where
  "udp_packet sp dp body = [0x45, 0, 0, 0, 0, 7, 0, 0, 64, 17, 0, 0, 10, 0, 0, 1, 10, 0, 0, 2] @
     sp @ dp @ [0, 0, 0, 0] @ body"

definition hdr_of :: "mem \<Rightarrow> int \<Rightarrow> pkthdr" where
  "hdr_of m t = \<lparr>tv_sec = t, caplen = of_nat (length m), len = of_nat (length m)\<rparr>"

definition rtp_bytes :: mem where
  "rtp_bytes = udp_packet [0x0f, 0xa0] [0x0f, 0xa0] [0x80, 0x80, 0, 1, 0, 0, 0, 1, 0, 0, 0, 9]"

definition rtp_table :: calltable where
  "rtp_table = new_calltable\<lparr>table := [learn_flow (open_call 65 7) (0x0200000a, 4000)]\<rparr>"

definition rtp_world :: "unit world" where
  "rtp_world = (initial_world 1000 False ())\<lparr>ct := rtp_table\<rparr>"

definition test_env :: "unit env" where
  "test_env = \<lparr>use_bsd = False, number_filter = \<lambda>s. True, method_filter = \<lambda>s. s = str ''INVITE'',
     env_strftime = \<lambda>f t. f,
     env_fs = \<lparr>fs_stat = \<lambda>f p. Some True, fs_mkdir = \<lambda>f p. (f, False),
               fs_append = \<lambda>f p. (f, True), fs_unlink = \<lambda>f p. f\<rparr>,
     dump_open = \<lambda>f p. (f, True)\<rparr>"

lemma rtp_table_inv: "ct_inv rtp_table"
  unfolding ct_inv_def used_calls_def by code_simp

definition small_delivery :: delivery where
  "small_delivery = (let m = udp_packet [0x13, 0xc4] [0x13, 0xc4] (str ''INVITE b'' @ [LF] @ str ''i: a'' @ [LF]) in
     Packet (hdr_of m 1000) (m @ replicate 4 0))"

text \<open>The INVITE is recorded: the loop returns, with a call in the table and its packet in the file.\<close>

lemma small_run:
  "case capture_loop test_opts test_env [small_delivery] (initial_world 1000 False ()) of
     None \<Rightarrow> False
   | Some w \<Rightarrow> list_all (\<lambda>e. last_packet_time e < 2147483347 \<and> f_pcap e = Some 0) (used_calls (ct w)) \<and>
       length (used_calls (ct w)) = 1 \<and> last (log w) = Dump 0"
  by code_simp

lemma small_run_Some:
  "\<exists>w. capture_loop test_opts test_env [small_delivery] (initial_world 1000 False ()) = Some w \<and>
     (\<forall>e\<in>set (used_calls (ct w)). last_packet_time e < 2147483347 \<and> f_pcap e = Some 0) \<and>
     length (used_calls (ct w)) = 1"
  using small_run by (auto split: option.split_asm simp: list_all_iff)

theorem capture_keeps_table_witness:
  "\<exists>w. capture_loop test_opts test_env [small_delivery] (initial_world 1000 False ()) = Some w \<and>
    any_step\<^sup>*\<^sup>* (ct (initial_world 1000 False ())) (ct w) \<and> ct_inv (ct w) \<and> length (used_calls (ct w)) = 1"
  using small_run_Some capture_keeps_table [of test_opts test_env "[small_delivery]" 1000 False "()"] by blast

end
