(* ===== verification/CaptureFiles.thy ===== *)
theory CaptureFiles
  imports CaptureTable
begin

text \<open>
  The files of a capture: the effects the packet loop has had on its dumpers, read as a protocol in
  which only an open dumper may be written, flushed or closed.
\<close>

section \<open>The life of a dumper\<close>

text \<open>
  The effects as a protocol over the set of open dumpers: writing, flushing and closing need an open
  dumper, and opening gives one that is not open. \<open>None\<close> is a violation (a use after close).
\<close>

fun run_effect :: "effect \<Rightarrow> dumper set \<Rightarrow> dumper set option" where
  "run_effect (Dump f) S = (if f \<in> S then Some S else None)"
| "run_effect (Dump_flush f) S = (if f \<in> S then Some S else None)"
| "run_effect (Dump_close f) S = (if f \<in> S then Some (S - {f}) else None)"
| "run_effect (Dump_open fn None) S = Some S"
| "run_effect (Dump_open fn (Some f)) S = (if f \<in> S then None else Some (insert f S))"
| "run_effect (Unlink fn) S = Some S"
| "run_effect (Fire k fn from to cid t) S = Some S"

fun run_effects :: "effect list \<Rightarrow> dumper set \<Rightarrow> dumper set option" where
  "run_effects [] S = Some S"
| "run_effects (x # xs) S = do { S \<leftarrow> run_effect x S; run_effects xs S }"

lemma run_effects_append: "run_effects (xs @ ys) S = do { S \<leftarrow> run_effects xs S; run_effects ys S }"
proof (induction xs arbitrary: S)
  case (Cons x xs)
  then show ?case by (cases "run_effect x S") simp_all
qed simp

primrec files_of :: "calltable_element list \<Rightarrow> dumper list" where
  "files_of [] = []"
| "files_of (e # es) = (case f_pcap e of None \<Rightarrow> files_of es | Some f \<Rightarrow> f # files_of es)"

lemma in_files_of: "f \<in> set (files_of es) \<longleftrightarrow> (\<exists>e\<in>set es. f_pcap e = Some f)"
  by (induction es) (auto split: option.splits)

lemma files_of_append: "files_of (xs @ ys) = files_of xs @ files_of ys"
  by (induction xs) (auto split: option.splits)

lemma files_of_update_same:
  "i < length xs \<Longrightarrow> f_pcap e = f_pcap (xs ! i) \<Longrightarrow> files_of (xs[i := e]) = files_of xs"
  by (induction xs arbitrary: i) (auto split: nat.splits option.splits)

lemma files_of_update_new:
  "i < length xs \<Longrightarrow> f_pcap (xs ! i) = None \<Longrightarrow> f_pcap e = Some f \<Longrightarrow> f \<notin> set (files_of xs) \<Longrightarrow>
   distinct (files_of xs) \<Longrightarrow> distinct (files_of (xs[i := e])) \<and> set (files_of (xs[i := e])) = insert f (set (files_of xs))"
proof (induction xs arbitrary: i)
  case (Cons x xs)
  then show ?case
    by (cases i; cases "f_pcap x") auto
qed simp

text \<open>
  \<open>files_ok\<close>: the protocol was kept so far, the dumpers open now are exactly those in the table, each
  in one place, and they were numbered by the opens so far.
\<close>

definition open_files :: "calltable \<Rightarrow> dumper list" where
  "open_files c = files_of (table c)"

definition files_ok :: "'fs world \<Rightarrow> bool" where
  "files_ok w \<longleftrightarrow> run_effects (log w) {} = Some (set (open_files (ct w))) \<and>
     distinct (open_files (ct w)) \<and> (\<forall>f\<in>set (open_files (ct w)). f < opened w)"

lemma files_ok_cong:
  "files_ok w \<Longrightarrow> open_files (ct w') = open_files (ct w) \<Longrightarrow> log w' = log w \<Longrightarrow> opened w' = opened w \<Longrightarrow> files_ok w'"
  by (simp add: files_ok_def)

lemma files_ok_emit:
  "files_ok w \<Longrightarrow> run_effects fx (set (open_files (ct w))) = Some (set (open_files (ct w))) \<Longrightarrow> files_ok (emit fx w)"
  by (simp add: files_ok_def emit_def run_effects_append)

lemma dump_packet_ok: "f \<in> S \<Longrightarrow> run_effects (dump_packet opts f) S = Some S"
  by (simp add: dump_packet_def)

lemma world_with_element [simp]:
  "log (with_element i g w) = log w" "opened (with_element i g w) = opened w"
  "log (emit fx w) = log w @ fx" "opened (emit fx w) = opened w"
  by (simp_all add: with_element_def emit_def)

lemma files_ok_with_element:
  assumes "files_ok w" "i < length (table (ct w))" "f_pcap (g (table (ct w) ! i)) = f_pcap (table (ct w) ! i)"
  shows "files_ok (with_element i g w)"
  using assms by (intro files_ok_cong [OF assms(1)]) (simp_all add: open_files_def ct_with_element files_of_update_same)

lemma valid_open_file: "valid_idx c i \<Longrightarrow> f_pcap (table c ! i) = Some f \<Longrightarrow> f \<in> set (open_files c)"
  unfolding valid_idx_def open_files_def in_files_of by (metis nth_mem)

text \<open>Clean-up closes the dumpers it removes from the table.\<close>

lemma run_cleanup:
  assumes "distinct (files_of es)" "set (files_of es) \<subseteq> S"
  shows "run_effects (concat (map (snd \<circ> cleanup_element c t) es)) S =
    Some (S - {f. \<exists>e\<in>set es. expired c t e \<and> f_pcap e = Some f})"
  using assms
proof (induction es arbitrary: S)
  case Nil
  then show ?case by simp
next
  case (Cons e es)
  show ?case
  proof (cases "expired c t e \<and> f_pcap e \<noteq> None")
    case False
    then have nil: "snd (cleanup_element c t e) = []" by (auto simp: cleanup_element_def)
    have "distinct (files_of es)" "set (files_of es) \<subseteq> S"
      using Cons.prems by (auto split: option.splits)
    note IH = Cons.IH [OF this]
    have "{f. \<exists>e'\<in>set (e # es). expired c t e' \<and> f_pcap e' = Some f} =
        {f. \<exists>e\<in>set es. expired c t e \<and> f_pcap e = Some f}" using False by auto
    then show ?thesis using nil IH by (simp del: set_simps add: o_def)
  next
    case True
    then obtain f where f: "f_pcap e = Some f" by auto
    have S: "distinct (files_of es)" "f \<in> S" "set (files_of es) \<subseteq> S - {f}"
      using Cons.prems f by auto
    have "run_effects (snd (cleanup_element c t e)) S = Some (S - {f})"
      using True f S(2) by (simp add: cleanup_element_def)
    moreover have "S - {f} - {f. \<exists>e\<in>set es. expired c t e \<and> f_pcap e = Some f} =
        S - {f. \<exists>e'\<in>set (e # es). expired c t e' \<and> f_pcap e' = Some f}" using True f by auto
    ultimately show ?thesis using Cons.IH [OF S(1,3)] by (simp del: set_simps add: run_effects_append o_def)
  qed
qed

lemma files_of_cleanup:
  "distinct (files_of es) \<Longrightarrow>
   distinct (files_of (map (\<lambda>e. if expired c t e then zero_element else e) es)) \<and>
   set (files_of (map (\<lambda>e. if expired c t e then zero_element else e) es)) =
     set (files_of es) - {f. \<exists>e\<in>set es. expired c t e \<and> f_pcap e = Some f}"
proof (induction es)
  case (Cons e es)
  have zero: "f_pcap zero_element = None" by (simp add: zero_element_def)
  have sub: "f \<in> set (files_of (map (\<lambda>e. if expired c t e then zero_element else e) es)) \<Longrightarrow> f \<in> set (files_of es)" for f
    using zero by (auto simp: in_files_of split: if_splits)
  show ?case
  proof (cases "f_pcap e")
    case None
    with Cons zero show ?thesis by (auto simp: in_files_of)
  next
    case (Some f)
    then have d: "distinct (files_of es)" "\<forall>e\<in>set es. f_pcap e \<noteq> Some f" using Cons.prems by (auto simp: in_files_of)
    with Cons.IH Some zero sub show ?thesis by (auto simp: in_files_of)
  qed
qed simp

lemma cleanup_files:
  assumes "files_ok w" "do_cleanup (ct w) t = (c, fx)"
  shows "files_ok (emit fx (w\<lparr>ct := c\<rparr>))"
proof -
  have d: "distinct (files_of (table (ct w)))" using assms(1) by (simp add: files_ok_def open_files_def)
  have "table c = map (\<lambda>e. if expired (ct w) t e then zero_element else e) (table (ct w))"
    using do_cleanup_table [of "ct w" t] assms(2) by simp
  moreover have "fx = concat (map (snd \<circ> cleanup_element (ct w) t) (table (ct w)))"
    using assms(2) by (simp add: do_cleanup_def)
  ultimately show ?thesis
    using assms(1) run_cleanup [OF d subset_refl, of "ct w" t] files_of_cleanup [OF d, of "ct w" t]
    by (auto simp: files_ok_def open_files_def run_effects_append emit_def)
qed

lemma periodic_cleanup_files: "files_ok w \<Longrightarrow> files_ok (periodic_cleanup t w)"
  using cleanup_files [of "w\<lparr>last_cleanup := word_of_int t\<rparr>" t]
  by (auto simp: periodic_cleanup_def files_ok_def split: prod.split)

lemma rtp_lookup_files:
  assumes "rtp_lookup save a p m s c = Some (c', hit)" "ct_inv c"
  shows "open_files c' = open_files c"
proof (cases save)
  case True
  with assms(1) obtain a' p' s' where f: "find_ip_port_ssrc c a' p' s' = (c', hit)"
    by (auto simp: rtp_lookup_def elim!: bind_SomeE)
  show ?thesis
  proof (cases hit)
    case None
    then show ?thesis using f by (auto simp: find_ip_port_ssrc_def Let_def split: option.splits prod.splits)
  next
    case (Some ir)
    obtain i r where "ir = (i, r)" by (cases ir)
    with Some f find_ip_port_ssrc_update [OF assms(2), of a' p' s' c' i r] show ?thesis
      by (auto simp: open_files_def files_of_update_same)
  qed
qed (use assms in \<open>auto simp: rtp_lookup_def\<close>)

lemma rtp_packet_files:
  assumes "rtp_packet opts h m data i w = Some w'" "valid_idx (ct w) i" "files_ok w"
  shows "files_ok w'"
proof (cases "f_pcap (table (ct w) ! i)")
  case None
  with assms show ?thesis by (simp add: rtp_packet_def)
next
  case (Some f)
  let ?w = "with_element i (\<lambda>e. e\<lparr>last_packet_time := tv_sec h, packets := packets e + 1\<rparr>) w"
  have ok: "files_ok ?w" using assms(2,3) by (intro files_ok_with_element) (simp_all add: valid_idx_def)
  have "open_files (ct ?w) = open_files (ct w)"
    using assms(2) by (simp add: open_files_def ct_with_element files_of_update_same valid_idx_def)
  then have "f \<in> set (open_files (ct ?w))" using valid_open_file [OF assms(2) Some] by simp
  then have "files_ok (emit (dump_packet opts f) ?w)" by (intro files_ok_emit ok dump_packet_ok)
  then show ?thesis using assms(1,3) Some by (auto simp: rtp_packet_def elim!: bind_SomeE split: if_split_asm)
qed

lemma open_file_files:
  assumes "open_file opts env from to callid t i w = Some w'" "valid_idx (ct w) i" "files_ok w"
    and "f_pcap (table (ct w) ! i) = None"
  shows "files_ok w'"
  using assms(1)
proof (cases rule: open_file_shape)
  case (1 fn fs2 ok f name)
  have i: "i < length (table (ct w))" using assms(2) by (simp add: valid_idx_def)
  show ?thesis
  proof (cases ok)
    case False
    with 1 assms(3,4) i show ?thesis
      by (simp add: files_ok_def open_files_def ct_with_element files_of_update_same run_effects_append)
  next
    case True
    have d: "distinct (files_of (table (ct w)))" "opened w \<notin> set (files_of (table (ct w)))"
      using assms(3) by (auto simp: files_ok_def open_files_def)
    let ?e = "(table (ct w) ! i)\<lparr>f_pcap := f, fn_pcap := name\<rparr>"
    from files_of_update_new [OF i assms(4) _ d(2,1), of ?e] 1(1) True
    have "distinct (files_of ((table (ct w))[i := ?e]))"
      "set (files_of ((table (ct w))[i := ?e])) = insert (opened w) (set (files_of (table (ct w))))"
      by simp_all
    with assms(3) 1 True d(2) show ?thesis
      by (auto simp: files_ok_def open_files_def ct_with_element run_effects_append)
  qed
qed

lemma new_call_files:
  assumes "new_call opts env meth from to callid t i w = Some w'" "valid_idx (ct w) i" "files_ok w"
    and "f_pcap (table (ct w) ! i) = None"
  shows "files_ok w'"
proof -
  have none: "files_ok (with_element i (\<lambda>e. e\<lparr>f_pcap := None\<rparr>) w1)" if "files_ok w1" "ct w1 = ct w" for w1 :: "'a world"
    using that assms(2,4) by (intro files_ok_with_element) (simp_all add: valid_idx_def)
  have cnt: "files_ok (w\<lparr>call_skip_cnt := k\<rparr>)" for k
    using assms(3) by (simp add: files_ok_def)
  have opens: "files_ok w'" if "open_file opts env from to callid t i (w\<lparr>call_skip_cnt := k\<rparr>) = Some w'" for k
    using open_file_files [OF that] assms(2,4) cnt by simp
  show ?thesis
    using assms(1) none [of w] none [of "w\<lparr>call_skip_cnt := fst (sample_call opts (call_skip_cnt w))\<rparr>"] cnt assms(3) opens
    by (auto simp: new_call_def case_prod_beta' Let_def split: if_split_asm)
qed

lemma register_fragments_files:
  "register_fragments m hdr i w = Some w' \<Longrightarrow> files_ok w \<Longrightarrow> files_ok w'"
  by (auto simp: register_fragments_def Let_def files_ok_def open_files_def add_ipfrag_def
      elim!: bind_SomeE split: if_split_asm)

lemma parse_sdp_file: "parse_sdp opts m sdp n ce = Some e \<Longrightarrow> f_pcap e = f_pcap ce"
  using parse_sdp_shape [of opts m sdp n ce e] by (auto simp: add_ip_port_def)

lemma learn_sdp_files:
  assumes "learn_sdp opts m data datalen i w = Some w'" "valid_idx (ct w) i" "files_ok w"
  shows "files_ok w'"
proof -
  from assms(1) obtain body where
    "(case body of None \<Rightarrow> Some w | Some sdp \<Rightarrow> do {
         e \<leftarrow> parse_sdp opts m sdp (unat (datalen - of_nat (sdp - data))) (table (ct w) ! i);
         Some (with_element i (\<lambda>_. e) w) }) = Some w'"
    unfolding learn_sdp_def case_prod_beta' by (elim bind_SomeE) blast
  then show ?thesis
    using assms(2,3) parse_sdp_file
    by (auto simp: valid_idx_def elim!: bind_SomeE split: option.split_asm intro!: files_ok_with_element)
qed

lemma dump_sip_files:
  assumes "valid_idx (ct w) i" "files_ok w"
  shows "files_ok (dump_sip opts bye i w)"
proof (cases "f_pcap (table (ct w) ! i)")
  case (Some f)
  from valid_open_file [OF assms(1) Some] assms(2) Some show ?thesis
    by (auto simp: dump_sip_def intro!: files_ok_emit)
qed (use assms in \<open>simp add: dump_sip_def\<close>)

lemma call_packet_files:
  assumes "call_packet opts m hdr data datalen meth i w = Some w'" "valid_idx (ct w) i" "files_ok w"
  shows "files_ok w'"
proof -
  define w1 where "w1 = (if meth = str ''BYE'' then with_element i (\<lambda>e. e\<lparr>had_bye := 1\<rparr>) w else w)"
  have "files_ok (with_element i (\<lambda>e. e\<lparr>had_bye := 1\<rparr>) w)"
    using assms(2,3) by (intro files_ok_with_element) (simp_all add: valid_idx_def)
  then have s1: "files_ok w1" "valid_idx (ct w1) i"
    using assms(2,3) by (auto simp: w1_def ct_with_element valid_idx_def)
  from assms(1) obtain w2 b where
    w2: "learn_sdp opts m data datalen i w1 = Some w2" "register_fragments m hdr i (dump_sip opts b i w2) = Some w'"
    unfolding call_packet_def w1_def [symmetric] Let_def by (elim bind_SomeE) blast
  have "files_ok w2" "valid_idx (ct w2) i"
    using learn_sdp_files [OF w2(1) s1(2,1)] learn_sdp_steps [OF w2(1) s1(2)] by auto
  then have "files_ok (dump_sip opts b i w2)" using dump_sip_files by blast
  with w2(2) show ?thesis by (rule register_fragments_files)
qed

lemma calltable_add_files:
  assumes "ct_inv (ct w)" "calltable_add (ct w) cid n from to t = Some (c, i, fx)" "files_ok w"
  shows "files_ok (emit fx (w\<lparr>ct := c\<rparr>)) \<and> f_pcap (table c ! i) = None"
  using assms(1,2)
proof (cases rule: calltable_add_cases)
  case (1 tab e)
  have "f_pcap zero_element = None" by (simp add: zero_element_def)
  with 1(1) have "files_of tab = files_of (table (ct w))" by (auto simp: files_of_append)
  with 1 \<open>f_pcap zero_element = None\<close> have "open_files c = open_files (ct w)"
    by (simp add: open_files_def files_of_update_same)
  with 1 assms(3) show ?thesis by (simp add: files_ok_def run_effects_append)
qed

lemma handle_sip_files:
  assumes "handle_sip opts env h m hdr data datalen meth w = Some w'" "ct_inv (ct w)" "files_ok w"
  shows "files_ok w'"
  using assms(1)
proof (cases rule: handle_sip_cases)
  case ignored
  with assms(3) show ?thesis by simp
next
  case (known m' s l i)
  then show ?thesis using call_packet_files [OF known(2) find_valid [OF known(1)] assms(3)] by simp
next
  case (new m' s l from_buf to_buf callid c i fx w2)
  let ?w1 = "emit fx (w\<lparr>ct := c\<rparr>)"
  have v: "valid_idx (ct ?w1) i"
    using calltable_add_find_same [OF assms(2) new(1,2)] find_by_call_id_bound by (simp add: valid_idx_def)
  have ok: "files_ok ?w1" "f_pcap (table (ct ?w1) ! i) = None"
    using calltable_add_files [OF assms(2) new(2) assms(3)] by simp_all
  have inv: "ct_inv (ct ?w1)" using calltable_add_inv [OF assms(2) new(1,2)] by simp
  have "files_ok w2" using new_call_files [OF new(3) v ok] .
  moreover have "valid_idx (ct w2) i" using new_call_steps [OF new(3) inv v ok(2)] by blast
  ultimately show ?thesis using call_packet_files [OF new(4)] by blast
qed

lemma handle_payload_files:
  assumes "handle_payload opts env h m hdr w = Some w'" "ct_inv (ct w)" "files_ok w"
  shows "files_ok w'"
  using assms(1)
proof (cases rule: handle_payload_cases)
  case (dest data save a p port_mask s c i k)
  have "files_ok (w\<lparr>ct := c\<rparr>)" using assms(3) rtp_lookup_files [OF dest(2) assms(2)] by (simp add: files_ok_def)
  moreover have "valid_idx (ct (w\<lparr>ct := c\<rparr>)) i" using rtp_lookup_steps [OF dest(2) assms(2)] by simp
  ultimately show ?thesis using rtp_packet_files [OF dest(3)] by blast
next
  case (source data save a p a' p' port_mask s c c' i k)
  have inv: "ct_inv c" using rtp_lookup_steps [OF source(2) assms(2)] steps_inv assms(2) by blast
  have "files_ok (w\<lparr>ct := c'\<rparr>)"
    using assms(3) rtp_lookup_files [OF source(2) assms(2)] rtp_lookup_files [OF source(3) inv] by (simp add: files_ok_def)
  moreover have "valid_idx (ct (w\<lparr>ct := c'\<rparr>)) i" using rtp_lookup_steps [OF source(3) inv] by simp
  ultimately show ?thesis using rtp_packet_files [OF source(4)] by blast
next
  case (sip data save a p a' p' port_mask s c c')
  have inv: "ct_inv c" using rtp_lookup_steps [OF sip(1) assms(2)] steps_inv assms(2) by blast
  have "files_ok (w\<lparr>ct := c'\<rparr>)"
    using assms(3) rtp_lookup_files [OF sip(1) assms(2)] rtp_lookup_files [OF sip(2) inv] by (simp add: files_ok_def)
  moreover have "ct_inv c'" using rtp_lookup_steps [OF sip(2) inv] steps_inv inv by blast
  then have "ct_inv (ct (w\<lparr>ct := c'\<rparr>))" by simp
  moreover from sip(3) obtain is_sip meth where
    "(if is_sip then handle_sip opts env h m hdr data (payload_length h data) meth (w\<lparr>ct := c'\<rparr>)
      else Some (w\<lparr>ct := c'\<rparr>)) = Some w'"
    unfolding sip_stage_def case_prod_beta' by (elim bind_SomeE) blast
  ultimately show ?thesis using handle_sip_files [of opts env h m hdr data _ meth "w\<lparr>ct := c'\<rparr>" w']
    by (cases is_sip) simp_all
qed

definition no_later_fragment :: "opts \<Rightarrow> delivery \<Rightarrow> bool" where
  "no_later_fragment opts d =
     (case d of Timeout \<Rightarrow> True
      | Packet h m \<Rightarrow>
          (case ip_header opts m of
             Some (Some hdr) \<Rightarrow> is_later_fragment4 m hdr \<noteq> Some True \<and> is_later_fragment6 m hdr \<noteq> Some True
           | _ \<Rightarrow> True))"

lemma process_packet_files:
  assumes "process_packet opts env h m w = Some w'" "no_later_fragment opts (Packet h m)"
    and "ct_inv (ct w)" "files_ok w"
  shows "files_ok w'"
  using assms(1)
proof (cases rule: process_packet_cases)
  case skip
  then show ?thesis using periodic_cleanup_files assms(4) by blast
next
  case (frag4 hdr)
  with assms(2) show ?thesis by (simp add: no_later_fragment_def)
next
  case (frag6 hdr)
  with assms(2) show ?thesis by (simp add: no_later_fragment_def)
next
  case (payload hdr)
  then show ?thesis
    using handle_payload_files periodic_cleanup_files [OF assms(4)] steps_inv [OF periodic_cleanup_steps assms(3)] by blast
qed

lemma capture_loop_files:
  "capture_loop opts env ds w = Some w' \<Longrightarrow> list_all (no_later_fragment opts) ds \<Longrightarrow>
   ct_inv (ct w) \<Longrightarrow> files_ok w \<Longrightarrow> files_ok w' \<and> ct_inv (ct w')"
proof (induction opts env ds w rule: capture_loop.induct)
  case (3 opts env h m ds w)
  from "3.prems"(1) obtain w1 where w1: "process_packet opts env h m w = Some w1"
    "capture_loop opts env ds w1 = Some w'"
    by (auto elim!: bind_SomeE)
  have "ct_inv (ct w1)" using steps_inv [OF process_packet_steps [OF w1(1) "3.prems"(3)] "3.prems"(3)] .
  moreover have "files_ok w1" using process_packet_files [OF w1(1)] "3.prems" by simp
  ultimately show ?case using "3.IH" [OF w1] "3.prems"(2) by simp
qed simp_all

lemma initial_files: "files_ok (initial_world timeout t38 fs0)" "ct_inv (ct (initial_world timeout t38 fs0))"
  by (simp_all add: files_ok_def open_files_def initial_world_def ct_inv_def used_calls_def new_calltable_def)

text \<open>The dumpers of the table are those of its calls: free slots have none.\<close>

lemma open_files_used:
  assumes "ct_inv c"
  shows "set (open_files c) = {f. \<exists>e\<in>set (used_calls c). f_pcap e = Some f}"
proof -
  have "is_used e \<noteq> 0" if "e \<in> set (table c)" "f_pcap e = Some f" for e f
  proof -
    have "element_ok e" using assms that(1) by (simp add: ct_inv_def list_all_iff)
    then show ?thesis using that(2) by (auto simp: element_ok_def zero_element_def)
  qed
  then show ?thesis unfolding open_files_def used_calls_def by (fastforce simp: in_files_of)
qed


lemma small_delivery_unfragmented: "list_all (no_later_fragment test_opts) [small_delivery]"
  by code_simp




end
