(* ===== verification/CaptureRuns.thy ===== *)
theory CaptureRuns
  imports CaptureFiles
begin

text \<open>
  What the packet loop of \<open>main\<close> does with one packet: RTP and RTCP packets of tracked flows, SIP
  packets of known and new calls, the payload length and the size checks, and the schedule of the
  periodic clean-up. The examples use the packets of \<open>CaptureTable\<close>.
\<close>

section \<open>RTP packets\<close>

text \<open>
  C6: a packet to a tracked flow is recorded. If its destination address and (masked) port is a flow
  of call \<open>i\<close>, the first that matches, and the call has a file, then the packet is written to exactly
  that file, the call's packet count and last-packet time are updated, and the flow remembers the
  packet's SSRC.
\<close>

theorem rtp_to_tracked_flow_recorded:
  assumes inv: "ct_inv (ct w)"
    and hdr: "transport_header m hdr = Some th" "payload m hdr th = Some data"
      "rtp_mode opts m th = Some (True, port_mask, is_rtcp)" "opt_rtpsave opts \<noteq> RTPSAVE_RTPEVENT"
      "hdaddr m hdr = Some a" "udphdr_dest m th = Some p" "get_ssrc m data is_rtcp = Some s"
    and flow: "flow_matches (ct w) a (htons p AND port_mask) s i r"
      "\<forall>j<i. \<forall>q. \<not> flow_matches (ct w) a (htons p AND port_mask) s j q"
    and open_file: "f_pcap (table (ct w) ! i) = Some f"
  shows "\<exists>w'. handle_payload opts env h m hdr w = Some w' \<and> log w' = log w @ dump_packet opts f \<and>
    table (ct w') = (table (ct w))[i := (table (ct w) ! i)
      \<lparr>ssrc := (ssrc (table (ct w) ! i))[r := s], last_packet_time := tv_sec h,
       packets := packets (table (ct w) ! i) + 1\<rparr>]"
proof -
  let ?e = "(table (ct w) ! i)\<lparr>ssrc := (ssrc (table (ct w) ! i))[r := s]\<rparr>"
  let ?c = "(ct w)\<lparr>table := (table (ct w))[i := ?e]\<rparr>"
  have find: "find_ip_port_ssrc (ct w) a (htons p AND port_mask) s = (?c, Some (i, r))"
    using find_ip_port_ssrc_hit [OF inv flow] .
  have i: "i < length (table (ct w))" using flow(1) by (simp add: flow_matches_def)
  have "rtp_lookup True (hdaddr m hdr) (udphdr_dest m th) port_mask (get_ssrc m data is_rtcp) (ct w) =
      Some (?c, Some (i, r))"
    using hdr find by (simp add: rtp_lookup_def)
  then have "handle_payload opts env h m hdr w = rtp_packet opts h m data i (w\<lparr>ct := ?c\<rparr>)"
    using hdr by (simp add: handle_payload_def Let_def)
  also have "\<dots> = Some (emit (dump_packet opts f)
      (with_element i (\<lambda>e. e\<lparr>last_packet_time := tv_sec h, packets := packets e + 1\<rparr>) (w\<lparr>ct := ?c\<rparr>)))"
    using hdr(4) open_file i by (simp add: rtp_packet_def)
  finally show ?thesis using i by (simp add: ct_with_element)
qed

theorem rtp_to_tracked_flow_recorded_witness:
  "\<exists>w'. handle_payload test_opts test_env (hdr_of rtp_bytes 1000) rtp_bytes 0 rtp_world = Some w' \<and>
    log w' = log rtp_world @ dump_packet test_opts 7 \<and>
    table (ct w') = (table (ct rtp_world))[0 := (table (ct rtp_world) ! 0)
      \<lparr>ssrc := (ssrc (table (ct rtp_world) ! 0))[0 := 9], last_packet_time := tv_sec (hdr_of rtp_bytes 1000),
       packets := packets (table (ct rtp_world) ! 0) + 1\<rparr>]"
proof (rule rtp_to_tracked_flow_recorded)
  show "ct_inv (ct rtp_world)" using rtp_table_inv by (simp add: rtp_world_def)
  show "transport_header rtp_bytes 0 = Some 20" by code_simp
  show "payload rtp_bytes 0 20 = Some 28" by code_simp
  show "rtp_mode test_opts rtp_bytes 20 = Some (True, 0xfffe, False)" by code_simp
  show "opt_rtpsave test_opts \<noteq> RTPSAVE_RTPEVENT" by code_simp
  show "hdaddr rtp_bytes 0 = Some 0x0200000a" by code_simp
  show "udphdr_dest rtp_bytes 20 = Some 0xa00f" by code_simp
  show "get_ssrc rtp_bytes 28 False = Some 9" by code_simp
  show "flow_matches (ct rtp_world) 0x0200000a (htons 0xa00f AND 0xfffe) 9 0 0" by code_simp
  show "f_pcap (table (ct rtp_world) ! 0) = Some 7" by code_simp
qed simp

text \<open>
  C30: in the default mode (RTP and RTCP) the port of a packet is looked up with its lowest bit
  cleared, so only flows with an even port are ever found: a media flow that SDP announces on an odd
  port is tracked but none of its packets is recorded.
\<close>

theorem odd_media_port_never_found:
  assumes "ct_inv c" "opt_rtpsave opts = RTPSAVE_RTP_RTCP"
    and "rtp_mode opts m th = Some (save, port_mask, is_rtcp)"
    and "rtp_lookup save addr p port_mask s c = Some (c', Some (i, r))"
  shows "snd (flows (table c ! i) ! r) AND 1 = 0"
proof -
  have mode: "save" "port_mask = 0xfffe"
    using assms(2,3) by (auto simp: rtp_mode_def rtpsave_defs elim!: bind_SomeE split: if_split_asm)
  with assms(4) obtain a' p' s' where "find_ip_port_ssrc c a' (htons p' AND 0xfffe) s' = (c', Some (i, r))"
    by (auto simp: rtp_lookup_def elim!: bind_SomeE)
  then have "flow_matches c a' (htons p' AND 0xfffe) s' i r"
    using find_ip_port_ssrc_SomeD [OF assms(1)] by blast
  then have "snd (flows (table c ! i) ! r) = htons p' AND 0xfffe" by (simp add: flow_matches_def)
  then show ?thesis by (simp add: and.assoc)
qed

theorem odd_media_port_never_found_witness:
  "snd (flows (table rtp_table ! 0) ! 0) AND 1 = 0"
proof (rule odd_media_port_never_found)
  show "ct_inv rtp_table" by (rule rtp_table_inv)
  show "opt_rtpsave test_opts = RTPSAVE_RTP_RTCP" by code_simp
  show "rtp_mode test_opts rtp_bytes 20 = Some (True, 0xfffe, False)" by code_simp
  have "flow_matches rtp_table 0x0200000a (htons 0xa00f AND 0xfffe) 9 0 0" by code_simp
  then show "rtp_lookup True (Some 0x0200000a) (Some 0xa00f) 0xfffe (Some 9) rtp_table =
      Some (rtp_table\<lparr>table := (table rtp_table)[0 := (table rtp_table ! 0)\<lparr>ssrc := (ssrc (table rtp_table ! 0))[0 := 9]\<rparr>]\<rparr>,
        Some (0, 0))"
    using find_ip_port_ssrc_hit [OF rtp_table_inv] by (simp add: rtp_lookup_def)
qed

text \<open>
  With \<open>-R rtpevent\<close>, a packet whose RTP marker bit is set is never recorded: the byte with the
  marker and the payload type is compared as a signed \<open>char\<close> with the announced payload type, so
  the first packet of each DTMF event is lost.
\<close>

theorem rtpevent_with_marker_dropped:
  assumes "opt_rtpsave opts = RTPSAVE_RTPEVENT" "rd8 m (data + 1) = Some b" "bit b 7"
  shows "rtp_packet opts h m data i w = Some w"
proof -
  have "sint b < 0" using assms(3) by (simp add: sint_uint signed_take_bit_negative_iff bit_uint_iff)
  then have "sint b \<noteq> uint e" for e :: byte using uint_ge_0 [of e] by linarith
  then show ?thesis using assms(1,2) by (simp add: rtp_packet_def reads_def split: option.split)
qed

theorem rtpevent_with_marker_dropped_witness:
  "rtp_packet (test_opts\<lparr>opt_rtpsave := RTPSAVE_RTPEVENT\<rparr>) (hdr_of rtp_bytes 1000) rtp_bytes 28 0 rtp_world =
     Some rtp_world"
proof (rule rtpevent_with_marker_dropped)
  show "rd8 rtp_bytes (28 + 1) = Some 0x80" by code_simp
  show "bit (0x80 :: byte) 7" by code_simp
  show "opt_rtpsave (test_opts\<lparr>opt_rtpsave := RTPSAVE_RTPEVENT\<rparr>) = RTPSAVE_RTPEVENT" by simp
qed

section \<open>SIP packets of a call\<close>

text \<open>The stages of a SIP packet of a known call leave the file of the call as it is.\<close>

lemma learn_sdp_frame:
  assumes "learn_sdp opts m data datalen i w = Some w'" "valid_idx (ct w) i"
  shows "log w' = log w \<and> f_pcap (table (ct w') ! i) = f_pcap (table (ct w) ! i) \<and>
    had_bye (table (ct w') ! i) = had_bye (table (ct w) ! i)"
proof -
  from assms(1) obtain body where
    "(case body of None \<Rightarrow> Some w | Some sdp \<Rightarrow> do {
         e \<leftarrow> parse_sdp opts m sdp (unat (datalen - of_nat (sdp - data))) (table (ct w) ! i);
         Some (with_element i (\<lambda>_. e) w) }) = Some w'"
    unfolding learn_sdp_def case_prod_beta' by (elim bind_SomeE) blast
  moreover have "f_pcap e = f_pcap ce \<and> had_bye e = had_bye ce" if "parse_sdp opts m sdp n ce = Some e" for sdp n ce e
    using parse_sdp_shape [OF that] by (auto simp: add_ip_port_def)
  ultimately show ?thesis
    using assms(2) by (auto simp: valid_idx_def ct_with_element elim!: bind_SomeE split: option.split_asm)
qed

lemma register_fragments_frame:
  "register_fragments m hdr i w = Some w' \<Longrightarrow> log w' = log w \<and> table (ct w') = table (ct w)"
  by (auto simp: register_fragments_def Let_def add_ipfrag_def elim!: bind_SomeE split: if_split_asm)

lemma dump_sip_table [simp]: "table (ct (dump_sip opts bye i w)) = table (ct w)"
  by simp

lemma call_packet_effects:
  assumes "call_packet opts m hdr data datalen meth i w = Some w'" "valid_idx (ct w) i"
  shows "log w' = log w @ (case f_pcap (table (ct w) ! i) of None \<Rightarrow> []
      | Some f \<Rightarrow> [Dump f] @ (if meth = str ''BYE'' then [Dump_flush f] else []) @
          (if opt_packetbuffered opts then [Dump_flush f] else [])) \<and>
    f_pcap (table (ct w') ! i) = f_pcap (table (ct w) ! i) \<and>
    had_bye (table (ct w') ! i) = (if meth = str ''BYE'' then 1 else had_bye (table (ct w) ! i))"
proof -
  define w1 where "w1 = (if meth = str ''BYE'' then with_element i (\<lambda>e. e\<lparr>had_bye := 1\<rparr>) w else w)"
  have w1: "valid_idx (ct w1) i" "log w1 = log w" "f_pcap (table (ct w1) ! i) = f_pcap (table (ct w) ! i)"
    "had_bye (table (ct w1) ! i) = (if meth = str ''BYE'' then 1 else had_bye (table (ct w) ! i))"
    using assms(2) by (simp_all add: w1_def ct_with_element valid_idx_def del: str_Cons)
  from assms(1) obtain w2 where
    w2: "learn_sdp opts m data datalen i w1 = Some w2"
    "register_fragments m hdr i (dump_sip opts (meth = str ''BYE'') i w2) = Some w'"
    unfolding call_packet_def w1_def [symmetric] Let_def by (elim bind_SomeE) blast
  from learn_sdp_frame [OF w2(1) w1(1)] register_fragments_frame [OF w2(2)] w1 show ?thesis
    by (auto simp: dump_sip_def simp del: str_Cons split: option.split)
qed

text \<open>
  C7: a SIP packet of a known call. It is appended to the call's file, if it has one, and to nothing
  else; a BYE marks the call as finished and flushes the file after the packet is written, and \<open>-U\<close>
  flushes once more. A call without a file stays without one: once the first packet of a Call-ID was
  not recorded, no later packet of it is, whatever the request.
\<close>

theorem known_call_packet:
  assumes "find_by_call_id (ct w) (drop s m) l = Some i"
    and "call_packet opts m hdr data datalen meth i w = Some w'"
  shows "log w' = log w @ (case f_pcap (table (ct w) ! i) of None \<Rightarrow> []
      | Some f \<Rightarrow> [Dump f] @ (if meth = str ''BYE'' then [Dump_flush f] else []) @
          (if opt_packetbuffered opts then [Dump_flush f] else [])) \<and>
    f_pcap (table (ct w') ! i) = f_pcap (table (ct w) ! i) \<and>
    had_bye (table (ct w') ! i) = (if meth = str ''BYE'' then 1 else had_bye (table (ct w) ! i))"
  using call_packet_effects [OF assms(2) find_valid [OF assms(1)]] .

text \<open>A BYE to the recorded call of \<open>rtp_world\<close>.\<close>

definition bye_bytes :: mem where
  "bye_bytes = udp_packet [0x13, 0xc4] [0x13, 0xc4] (str ''BYE b'' @ [LF] @ str ''i: AAAAAAAA'' @ [LF]) @ [0]"

lemma bye_packet_defined: "call_packet test_opts bye_bytes 0 28 18 (str ''BYE'') 0 rtp_world \<noteq> None"
  by code_simp

theorem known_call_packet_witness:
  "\<exists>w'. call_packet test_opts bye_bytes 0 28 18 (str ''BYE'') 0 rtp_world = Some w' \<and>
     log w' = [Dump 7, Dump_flush 7] \<and> f_pcap (table (ct w') ! 0) = Some 7 \<and> had_bye (table (ct w') ! 0) = 1"
proof -
  obtain w' where w': "call_packet test_opts bye_bytes 0 28 18 (str ''BYE'') 0 rtp_world = Some w'"
    using bye_packet_defined by blast
  have f: "find_by_call_id (ct rtp_world) (drop 37 bye_bytes) 8 = Some 0" by code_simp
  have "log rtp_world = []" "f_pcap (table (ct rtp_world) ! 0) = Some 7" "\<not> opt_packetbuffered test_opts"
    by code_simp+
  with known_call_packet [OF f w'] w' show ?thesis by (simp del: str_Cons)
qed



section \<open>Bounds\<close>

lemma uint_word_of_int_diff:
  "uint (word_of_int x - word_of_nat y :: u64) = (x - int y) mod 2 ^ 64"
proof -
  have "(word_of_int x - word_of_nat y :: u64) = word_of_int (x - int y)" by simp
  then show ?thesis by (simp only: uint_word_of_int) (simp add: take_bit_eq_mod)
qed

lemma int_mod_diff:
  fixes x y :: int
  assumes "0 \<le> x" "x < 2 ^ 63" "0 \<le> y" "y < 2 ^ 63"
  shows "(x - y) mod 2 ^ 64 = (if y \<le> x then x - y else 2 ^ 64 - (y - x))"
proof (cases "y \<le> x")
  case True
  then show ?thesis using assms by simp
next
  case False
  have "(x - y) mod 2 ^ 64 = (x - y + 2 ^ 64) mod 2 ^ 64" by simp
  also have "\<dots> = x - y + 2 ^ 64" using assms False by (intro mod_pos_pos_trivial) simp_all
  finally show ?thesis using False by simp
qed

text \<open>
  The payload length is computed in 64 bits and wraps. It is the number of captured bytes after
  the start of the payload when the payload starts inside them; a payload that starts \<open>k\<close> bytes past
  them gets length \<open>2 ^ 64 - k\<close>.
\<close>

theorem payload_length_wraps:
  assumes "data < 2 ^ 32"
  shows "uint (payload_length h data) =
    (if int data \<le> uint (min (len h) (caplen h)) then uint (min (len h) (caplen h)) - int data
     else 2 ^ 64 - (int data - uint (min (len h) (caplen h))))"
proof -
  let ?n = "uint (min (len h) (caplen h))"
  have n: "0 \<le> ?n" "?n < 2 ^ 32" using uint_bounded [of "min (len h) (caplen h)"] by simp_all
  have c: "ucast (min (len h) (caplen h)) = (word_of_int ?n :: u64)"
    by (simp only: word_of_int_uint unsigned_ucast_eq flip: ucast_eq)
  have "payload_length h data = word_of_int ?n - word_of_nat data"
    unfolding payload_length_def c ..
  then have "uint (payload_length h data) = (?n - int data) mod 2 ^ 64"
    by (simp only: uint_word_of_int_diff)
  also have "\<dots> = (if int data \<le> ?n then ?n - int data else 2 ^ 64 - (int data - ?n))"
    using n assms int_mod_diff [of ?n "int data"] by simp
  finally show ?thesis by simp
qed

theorem payload_length_wraps_witness:
  "uint (payload_length \<lparr>tv_sec = 0, caplen = 42, len = 42\<rparr> 46) = 2 ^ 64 - 4"
  by (subst payload_length_wraps) simp_all

text \<open>
  The size check that lets a packet through counts from \<open>offset_to_ip\<close> and not from where the IP
  header was found: it accepts a packet with a VLAN tag (IP header at 18) that was captured up to the
  end of an untagged UDP header, whose payload starts 4 bytes past the captured bytes and has a
  length of nearly 2 ^ 64.
\<close>

theorem vlan_runt_accepted:
  assumes "offset_to_ip opts = sizeof_ether_header" "ip_version m 18 = Some 4"
    and "iphdr_protocol m 18 = Some IPPROTO_UDP" "caplen h = 42" "len h = 42"
  shows "is_candidate opts h m 18 = Some True \<and> transport_header m 18 = Some 38 \<and>
    payload m 18 38 = Some 46 \<and> payload_length h 46 = - 4"
  using assms
  by (simp add: is_candidate_def transport_header_def payload_def is_udp_def payload_length_def
      has_caplen_def or_else_def and_then_def reads_def sizeof_defs)

definition vlan_runt :: mem where
  "vlan_runt = replicate 12 0 @ [0x81, 0, 0, 1, 8, 0] @ take 24 rtp_bytes"

theorem vlan_runt_accepted_witness:
  "is_candidate (test_opts\<lparr>offset_to_ip := sizeof_ether_header\<rparr>) (hdr_of vlan_runt 0) vlan_runt 18 = Some True \<and>
    transport_header vlan_runt 18 = Some 38 \<and> payload vlan_runt 18 38 = Some 46 \<and>
    payload_length (hdr_of vlan_runt 0) 46 = - 4"
proof (rule vlan_runt_accepted)
  show "ip_version vlan_runt 18 = Some 4" by code_simp
  show "iphdr_protocol vlan_runt 18 = Some IPPROTO_UDP" by code_simp
  show "caplen (hdr_of vlan_runt 0) = 42" by code_simp
  show "len (hdr_of vlan_runt 0) = 42" by code_simp
qed simp

text \<open>
  With \<open>USE_TCP\<close>, an IPv6 packet is tested for TCP by the protocol field of an IPv4 header, which is a
  byte of its source address: TCP packets over IPv6 are not looked into unless that byte is 6.
\<close>

theorem ipv6_tcp_not_recognised:
  assumes "ip_version m hdr = Some 6" "ipv6hdr_nexthdr m hdr = Some IPPROTO_TCP" "iphdr_protocol m hdr = Some b"
    and "b \<noteq> IPPROTO_TCP"
  shows "is_candidate opts h m hdr = Some False"
  using assms
  by (simp add: is_candidate_def Let_def or_else_def and_then_def reads_def has_caplen_def ipproto_defs)

theorem ipv6_tcp_not_recognised_witness:
  "is_candidate (test_opts\<lparr>use_tcp := True\<rparr>) (hdr_of rtp_bytes 0) (0x60 # replicate 5 0 @ [6, 64] @ replicate 40 0) 0 = Some False"
  by (rule ipv6_tcp_not_recognised [of _ _ 0]) code_simp+



end
