(* ===== verification/Options.thy ===== *)
theory Options
  imports Trigger CaptureRuns
begin

text \<open>
  \<open>main\<close> (\<open>pcapsipdump.cpp\<close>) before the packet loop: the command line, the filter expression, the
  calls that open the capture, the link type and the fork into the background.

  \<open>getopt\<close> is not under the repository: its results are the input here. Strings are C strings without
  their NUL. Messages are not modelled.
\<close>

section \<open>What the options set\<close>

text \<open>
  \<open>opts\<close> holds the variables the packet loop reads; here are the others. A filter is the text of its
  regular expression. The default of \<open>opt_fntemplate\<close> depends on the user: \<open>pw_dir\<close> is the home of
  the passwd entry, if there is one, and \<open>home_env\<close> the variable \<open>HOME\<close>.
\<close>

record config = opts +
  ifname :: "byte list option"
  fname :: "byte list option"
  opt_fork :: bool
  opt_promisc :: bool
  opt_pcap_buffer_size :: int
  absolute_timeout :: int
  number_filter_text :: "byte list"
  method_filter_text :: "byte list"
  pid_file :: "byte list"
  triggers_set :: triggers

definition default_fntemplate :: "bool \<Rightarrow> byte list option \<Rightarrow> byte list option \<Rightarrow> byte list" where
  "default_fntemplate is_root pw_dir home_env =
     (if \<not> is_root then
        let home = (case pw_dir of Some d \<Rightarrow> d | None \<Rightarrow> (case home_env of Some h \<Rightarrow> h | None \<Rightarrow> str ''.''))
        in take 511 (home @ str ''/.var/spool/pcapsipdump/%Y%m%d/%H/%Y%m%d-%H%M%S-%f-%t-%i.pcap'')
      else str ''/var/spool/pcapsipdump/%Y%m%d/%H/%Y%m%d-%H%M%S-%f-%t-%i.pcap'')"

definition default_config :: "bool \<Rightarrow> byte list \<Rightarrow> config" where
  "default_config tcp fntemplate =
     \<lparr>use_tcp = tcp, verbosity = 0, opt_t38only = False, opt_packetbuffered = False,
      opt_rtpsave = RTPSAVE_RTP_RTCP, opt_call_skip_n = 1, number_filter_in_use = False,
      opt_fntemplate = fntemplate, offset_to_ip = 0,
      ifname = None, fname = None, opt_fork = True, opt_promisc = True, opt_pcap_buffer_size = 0,
      absolute_timeout = INT32_MAX, number_filter_text = [],
      method_filter_text = str ''^(INVITE|OPTIONS|REGISTER)$'', pid_file = str ''/var/run/pcapsipdump.pid'',
      triggers_set = trigger_init no_triggers\<rparr>"

section \<open>The options\<close>

definition strcasecmp_eq :: "byte list \<Rightarrow> byte list \<Rightarrow> bool" where
  "strcasecmp_eq s t = (map tolower s = map tolower t)"

definition set_rtp_filter :: "byte list \<Rightarrow> config \<Rightarrow> int + config" where
  "set_rtp_filter optarg cfg =
     (if strcasecmp_eq optarg (str ''none'') then Inr (cfg\<lparr>opt_rtpsave := RTPSAVE_NONE\<rparr>)
      else if strcasecmp_eq optarg (str ''rtpevent'') then Inr (cfg\<lparr>opt_rtpsave := RTPSAVE_RTPEVENT\<rparr>)
      else if strcasecmp_eq optarg (str ''t38'') then Inr (cfg\<lparr>opt_t38only := True\<rparr>)
      else if strcasecmp_eq optarg (str ''all'') \<or> strcasecmp_eq optarg (str ''rtp+rtcp'')
        then Inr (cfg\<lparr>opt_rtpsave := RTPSAVE_RTP_RTCP\<rparr>)
      else if strcasecmp_eq optarg (str ''rtp'') then Inr (cfg\<lparr>opt_rtpsave := RTPSAVE_RTP\<rparr>)
      else Inl 1)"

text \<open>An \<open>int\<close> variable assigned a \<open>long\<close> or \<open>long long\<close> keeps its low 32 bits.\<close>

definition to_int :: "int \<Rightarrow> int" where
  "to_int v = sint (word_of_int v :: u32)"

text \<open>
  The \<open>switch\<close> over what \<open>getopt\<close> returns: the option and its argument (empty for a flag). \<open>Inl\<close> is
  the code the program returns.
\<close>

definition option_step :: "char \<Rightarrow> byte list \<Rightarrow> config \<Rightarrow> (int + config) option" where
  "option_step c optarg cfg =
     (if c = CHR ''i'' then Some (Inr (cfg\<lparr>ifname := Some optarg\<rparr>))
      else if c = CHR ''v'' then do {
        v \<leftarrow> atoi (optarg @ [NUL]);
        Some (Inr (cfg\<lparr>verbosity := v, triggers_set := (triggers_set cfg)\<lparr>t_verbosity := v\<rparr>\<rparr>)) }
      else if c = CHR ''m'' then Some (Inr (cfg\<lparr>method_filter_text := optarg\<rparr>))
      else if c = CHR ''n'' then Some (Inr (cfg\<lparr>number_filter_text := optarg, number_filter_in_use := True\<rparr>))
      else if c = CHR ''R'' then Some (set_rtp_filter optarg cfg)
      else if c = CHR ''l'' then do {
        n \<leftarrow> atoi (optarg @ [NUL]);
        Some (if n < 1 then Inl 1 else Inr (cfg\<lparr>opt_call_skip_n := n\<rparr>)) }
      else if c = CHR ''B'' then
        let n = to_int (parse_size_string optarg)
        in Some (if n < 1 then Inl 1 else Inr (cfg\<lparr>opt_pcap_buffer_size := n\<rparr>))
      else if c = CHR ''r'' then Some (Inr (cfg\<lparr>fname := Some optarg\<rparr>))
      else if c = CHR ''d'' then Some (Inr (cfg\<lparr>opt_fntemplate := optarg\<rparr>))
      else if c = CHR ''f'' then Some (Inr (cfg\<lparr>opt_fork := False\<rparr>))
      else if c = CHR ''p'' then Some (Inr (cfg\<lparr>opt_promisc := False\<rparr>))
      else if c = CHR ''U'' then Some (Inr (cfg\<lparr>opt_packetbuffered := True\<rparr>))
      else if c = CHR ''T'' then do {
        t \<leftarrow> atol (optarg @ [NUL]);
        Some (Inr (cfg\<lparr>absolute_timeout := to_int t\<rparr>)) }
      else if c = CHR ''t'' then do {
        r \<leftarrow> trigger_add (triggers_set cfg) optarg;
        Some (case r of Inl code \<Rightarrow> Inl code | Inr ts \<Rightarrow> Inr (cfg\<lparr>triggers_set := ts\<rparr>)) }
      else if c = CHR ''P'' then Some (Inr (cfg\<lparr>pid_file := optarg\<rparr>))
      else if c = CHR ''h'' \<or> c = CHR ''V'' then Some (Inl 0)
      else Some (Inl 1))"

fun parse_options :: "(char \<times> byte list) list \<Rightarrow> config \<Rightarrow> (int + config) option" where
  "parse_options [] cfg = Some (Inr cfg)"
| "parse_options ((c, optarg) # rest) cfg = do {
     r \<leftarrow> option_step c optarg cfg;
     case r of Inl code \<Rightarrow> Some (Inl code) | Inr cfg \<Rightarrow> parse_options rest cfg }"

section \<open>The rest of the arguments\<close>

definition MAX_PCAP_FILTER_EXPRESSION :: nat where "MAX_PCAP_FILTER_EXPRESSION = 1024"

definition strcat :: "nat \<Rightarrow> byte list \<Rightarrow> byte list \<Rightarrow> byte list option" where
  "strcat n dst src = (if length dst + length src < n then Some (dst @ src) else None)"

fun filter_exp_loop :: "byte list list \<Rightarrow> byte list \<Rightarrow> byte list option" where
  "filter_exp_loop [] filter_exp = Some filter_exp"
| "filter_exp_loop (arg # args) filter_exp = do {
     filter_exp \<leftarrow> (if filter_exp \<noteq> [] then strcat MAX_PCAP_FILTER_EXPRESSION filter_exp [SP] else Some filter_exp);
     filter_exp \<leftarrow> strcat MAX_PCAP_FILTER_EXPRESSION filter_exp arg;
     filter_exp_loop args filter_exp }"

section \<open>Opening the capture\<close>

text \<open>The calls of libpcap in their order; the first that fails ends the program with code 2.\<close>

datatype pcap_call =
  Pcap_create "byte list" | Pcap_set_snaplen int | Pcap_set_promisc bool | Pcap_set_timeout int
| Pcap_set_buffer_size int | Pcap_activate | Pcap_open_offline "byte list"
| Pcap_compile "byte list" | Pcap_setfilter

definition open_capture_calls :: "config \<Rightarrow> byte list \<Rightarrow> pcap_call list" where
  "open_capture_calls cfg filter_exp =
     (case ifname cfg of
        Some ifc \<Rightarrow>
          [Pcap_create ifc, Pcap_set_snaplen 9000, Pcap_set_promisc (opt_promisc cfg), Pcap_set_timeout 1000] @
          (if opt_pcap_buffer_size cfg > 0 then [Pcap_set_buffer_size (opt_pcap_buffer_size cfg)] else []) @
          [Pcap_activate]
      | None \<Rightarrow> [Pcap_open_offline (case fname cfg of Some f \<Rightarrow> f | None \<Rightarrow> [])]) @
     [Pcap_compile filter_exp, Pcap_setfilter]"

datatype dlt = DLT_EN10MB | DLT_LINUX_SLL | DLT_RAW | DLT_other int

definition offset_of_dlt :: "dlt \<Rightarrow> nat option" where
  "offset_of_dlt d =
     (case d of DLT_EN10MB \<Rightarrow> Some sizeof_ether_header | DLT_LINUX_SLL \<Rightarrow> Some 16 | DLT_RAW \<Rightarrow> Some 0
      | DLT_other _ \<Rightarrow> None)"

text \<open>
  \<open>main\<close> from the options up to the packet loop. Parameters: \<open>strftime\<close> and the file system, the time,
  whether each libpcap call succeeds, the link type of the handle, and the result of \<open>fork\<close> with
  whether the PID file can be written (\<open>pid\<close> is 0 in the child; where the code does not fork, it is
  not looked at). \<open>Inl\<close> is the code the process ends with.
\<close>

definition main_setup ::
  "bool \<Rightarrow> (byte list \<Rightarrow> int \<Rightarrow> byte list) \<Rightarrow> 'fs filesystem \<Rightarrow> int \<Rightarrow> (pcap_call \<Rightarrow> bool) \<Rightarrow> dlt \<Rightarrow>
   int \<Rightarrow> (byte list \<Rightarrow> bool) \<Rightarrow> config \<Rightarrow> (char \<times> byte list) list \<Rightarrow> byte list list \<Rightarrow> 'fs \<Rightarrow>
   (int + opts \<times> 'fs world) option" where
  "main_setup bsd strftime sys now pcap_ok link pid pid_file_ok cfg0 items args fs0 = do {
     r \<leftarrow> parse_options items cfg0;
     case r of
       Inl code \<Rightarrow> Some (Inl code)
     | Inr cfg \<Rightarrow> do {
         filter_exp \<leftarrow> filter_exp_loop args [];
         if fname cfg = None \<and> ifname cfg = None then Some (Inl 1)
         else do {
           (res, template, fs1) \<leftarrow> opts_sanity_check_d bsd strftime sys now (opt_fntemplate cfg) fs0;
           if res \<noteq> 0 then Some (Inl res)
           else if \<not> list_all pcap_ok (open_capture_calls cfg filter_exp) then Some (Inl 2)
           else
             case offset_of_dlt link of
               None \<Rightarrow> Some (Inl 3)
             | Some off \<Rightarrow>
                 if opt_fork cfg \<and> pid \<noteq> 0 then Some (Inl (if pid_file_ok (pid_file cfg) then 0 else 2))
                 else Some (Inr (opts.truncate (cfg\<lparr>opt_fntemplate := template, offset_to_ip := off\<rparr>),
                        initial_world (absolute_timeout cfg) (opt_t38only cfg) fs1)) } } }"

section \<open>What every accepted command line gives\<close>

definition config_ok :: "config \<Rightarrow> bool" where
  "config_ok cfg \<longleftrightarrow>
     opt_call_skip_n cfg \<ge> 1 \<and> opt_rtpsave cfg \<in> {RTPSAVE_NONE, RTPSAVE_RTP, RTPSAVE_RTP_RTCP, RTPSAVE_RTPEVENT} \<and>
     0 \<le> opt_pcap_buffer_size cfg \<and> opt_pcap_buffer_size cfg < 2 ^ 31 \<and>
     - (2 ^ 31) \<le> absolute_timeout cfg \<and> absolute_timeout cfg < 2 ^ 31 \<and>
     t_byname (triggers_set cfg) = trigger_names"

lemma to_int_bounds: "- (2 ^ 31) \<le> to_int v \<and> to_int v < 2 ^ 31"
  using sint_range_size [of "word_of_int v :: u32"] by (simp add: to_int_def word_size)

lemma default_config_ok: "config_ok (default_config tcp fntemplate)"
  by (simp add: config_ok_def default_config_def rtpsave_defs INT32_MAX_def trigger_init_names)

lemma trigger_add_names: "trigger_add ts s = Some (Inr ts') \<Longrightarrow> t_byname ts' = t_byname ts"
  by (auto simp: trigger_add_def Let_def case_prod_beta' split: option.split_asm if_split_asm)

lemma set_rtp_filter_ok: "set_rtp_filter optarg cfg = Inr cfg' \<Longrightarrow> config_ok cfg \<Longrightarrow> config_ok cfg'"
  by (auto simp: set_rtp_filter_def config_ok_def simp del: str_Cons split: if_split_asm)

lemma option_step_ok:
  assumes "option_step c optarg cfg = Some (Inr cfg')" "config_ok cfg"
  shows "config_ok cfg'"
proof -
  have R: "config_ok cfg'" if "set_rtp_filter optarg cfg = Inr cfg'"
    using set_rtp_filter_ok [OF that assms(2)] .
  show ?thesis
    using assms(1) assms(2)
    unfolding option_step_def
    by (auto simp: config_ok_def Let_def to_int_bounds [simplified] trigger_add_names
        elim!: bind_SomeE split: if_split_asm sum.split_asm dest: R)
qed

lemma parse_options_ok: "parse_options items cfg = Some (Inr cfg') \<Longrightarrow> config_ok cfg \<Longrightarrow> config_ok cfg'"
proof (induction items cfg rule: parse_options.induct)
  case (2 c optarg rest cfg)
  from "2.prems"(1) obtain cfg1 where step: "option_step c optarg cfg = Some (Inr cfg1)"
    "parse_options rest cfg1 = Some (Inr cfg')"
    by (auto elim!: bind_SomeE split: sum.split_asm)
  then show ?case using "2.IH" option_step_ok [OF step(1) "2.prems"(2)] by blast
qed simp

lemma option_step_tcp: "option_step c optarg cfg = Some (Inr cfg') \<Longrightarrow> use_tcp cfg' = use_tcp cfg"
  unfolding option_step_def set_rtp_filter_def
  by (auto simp: Let_def simp del: str_Cons elim!: bind_SomeE split: if_split_asm sum.split_asm)

lemma parse_options_tcp: "parse_options items cfg = Some (Inr cfg') \<Longrightarrow> use_tcp cfg' = use_tcp cfg"
  by (induction items cfg rule: parse_options.induct)
    (auto elim!: bind_SomeE split: sum.split_asm simp: option_step_tcp)

lemma main_setup_result:
  assumes "main_setup bsd strftime sys now pcap_ok link pid pid_file_ok cfg0 items args fs0 = Some (Inr (opts, w))"
  obtains cfg template off fs1 where "parse_options items cfg0 = Some (Inr cfg)" "offset_of_dlt link = Some off"
    "opts = opts.truncate (cfg\<lparr>opt_fntemplate := template, offset_to_ip := off\<rparr>)"
    "w = initial_world (absolute_timeout cfg) (opt_t38only cfg) fs1"
  using assms unfolding main_setup_def
  by (auto elim!: bind_SomeE split: sum.split_asm if_split_asm option.split_asm)

lemma offset_of_dlt_bound: "offset_of_dlt d = Some off \<Longrightarrow> off \<in> {0, sizeof_ether_header, 16}"
  by (auto simp: offset_of_dlt_def split: dlt.split_asm)


text \<open>
  A directory for the files that exists and can be written, for the examples.
\<close>

definition test_config :: config where
  "test_config = default_config False (str ''/spool'')"


section \<open>Sizes and lengths\<close>

text \<open>
  C37: \<open>-B\<close> keeps the low 32 bits of the size, as a signed number. Sizes below 2 GiB are taken as they
  are; from there on the program uses another size, or refuses one that \<open>parse_size_string\<close> has
  understood.
\<close>

theorem buffer_size_truncated:
  assumes "list_all isdigit ds" "ds \<noteq> []" "length ds \<le> 18"
    and "(map tolower u, k) \<in> set size_multipliers"
    and "length (ds @ u) < 32" "dec_value ds * uint k < 2 ^ 63"
  shows "option_step CHR ''B'' (ds @ u) cfg = Some
    (if (dec_value ds * uint k + 2 ^ 31) mod 2 ^ 32 > 2 ^ 31
     then Inr (cfg\<lparr>opt_pcap_buffer_size := (dec_value ds * uint k + 2 ^ 31) mod 2 ^ 32 - 2 ^ 31\<rparr>)
     else Inl 1)"
proof -
  have "to_int v = (v + 2 ^ 31) mod 2 ^ 32 - 2 ^ 31" for v
    by (simp add: to_int_def signed_take_bit_eq_take_bit_shift take_bit_eq_mod sint_sbintrunc')
  then show ?thesis using parse_size_string_value [OF assms] by (simp add: option_step_def)
qed

theorem buffer_size_truncated_witness:
  "option_step CHR ''B'' (str ''5'' @ str ''GiB'') test_config =
     Some (Inr (test_config\<lparr>opt_pcap_buffer_size := 1073741824\<rparr>)) \<and>
   option_step CHR ''B'' (str ''2'' @ str ''GiB'') test_config = Some (Inl 1)"
proof -
  have five: "list_all isdigit (str ''5'')" "str ''5'' \<noteq> []" "length (str ''5'') \<le> 18"
    "(map tolower (str ''GiB''), 1073741824) \<in> set size_multipliers"
    "length (str ''5'' @ str ''GiB'') < 32" "dec_value (str ''5'') * uint (1073741824 :: u64) < 2 ^ 63"
    by code_simp+
  have two: "list_all isdigit (str ''2'')" "str ''2'' \<noteq> []" "length (str ''2'') \<le> 18"
    "length (str ''2'' @ str ''GiB'') < 32" "dec_value (str ''2'') * uint (1073741824 :: u64) < 2 ^ 63"
    by code_simp+
  have "dec_value (str ''5'') * uint (1073741824 :: u64) = 5368709120"
    "dec_value (str ''2'') * uint (1073741824 :: u64) = 2147483648" by code_simp+
  then show ?thesis
    using buffer_size_truncated [OF five, of test_config] buffer_size_truncated [OF two(1-3) five(4) two(4,5), of test_config]
    by simp
qed

fun join_args :: "byte list list \<Rightarrow> byte list" where
  "join_args [] = []"
| "join_args (arg # args) = arg @ concat (map (\<lambda>a. SP # a) args)"

lemma filter_exp_loop_append:
  assumes "out \<noteq> []" "length out < 1024"
  shows "filter_exp_loop args out =
    (if length (out @ concat (map (\<lambda>a. SP # a) args)) < 1024 then Some (out @ concat (map (\<lambda>a. SP # a) args))
     else None)"
  using assms
proof (induction args arbitrary: out)
  case (Cons arg args)
  then show ?case
    using Cons.IH [of "out @ SP # arg"]
    by (auto simp: strcat_def MAX_PCAP_FILTER_EXPRESSION_def)
qed simp

text \<open>
  The filter expression is the trailing arguments joined by single spaces, when that is shorter than
  1024 bytes; longer command lines overrun the array on the stack (undefined behaviour).
\<close>

theorem filter_exp_joined:
  assumes "\<forall>arg\<in>set args. arg \<noteq> []"
  shows "filter_exp_loop args [] =
    (if length (join_args args) < MAX_PCAP_FILTER_EXPRESSION then Some (join_args args) else None)"
proof (cases args)
  case (Cons arg rest)
  then show ?thesis
    using filter_exp_loop_append [of arg rest] assms
    by (auto simp: strcat_def MAX_PCAP_FILTER_EXPRESSION_def)
qed (simp add: MAX_PCAP_FILTER_EXPRESSION_def)

theorem filter_exp_joined_witness:
  "filter_exp_loop [str ''udp'', str ''port'', str ''5060''] [] = Some (str ''udp port 5060'')"
  by (subst filter_exp_joined) (simp_all add: MAX_PCAP_FILTER_EXPRESSION_def)

end
