(* ===== verification/CaptureSafety.thy ===== *)
theory CaptureSafety
  imports CaptureRuns
begin

text \<open>
  When the packet loop is defined: the reads and writes of every stage stay in bounds under explicit
  conditions on the size of the capture buffer, on the header values that are copied into fixed
  arrays and on the length of the file names (\<open>packet_ok\<close>, \<open>names_fit\<close>).
\<close>

section \<open>Headers\<close>

text \<open>Reads that stay inside the memory are defined; compositions of defined steps are defined.\<close>

lemma test_simps [simp]:
  "reads P (Some x) = Some (P x)"
  "and_then (Some a) (Some b) = Some (a \<and> b)"
  "or_else (Some a) (Some b) = Some (a \<or> b)"
  by (simp_all add: reads_def and_then_def or_else_def)

lemma rd8_defined: "i < length m \<Longrightarrow> rd8 m i \<noteq> None"
  by (simp add: rd8_def)

text \<open>The fields of both IP headers and of the fragment header, up to byte 48.\<close>

lemma ip_fields_defined:
  assumes "hdr + 48 \<le> length m"
  shows "ip_version m hdr \<noteq> None" "iphdr_id m hdr \<noteq> None" "iphdr_frag_off m hdr \<noteq> None"
    "iphdr_protocol m hdr \<noteq> None" "iphdr_saddr m hdr \<noteq> None" "iphdr_daddr m hdr \<noteq> None"
    "ipv6hdr_nexthdr m hdr \<noteq> None" "rd8 m (hdr + 40) \<noteq> None" "ld16 m (hdr + 42) \<noteq> None"
    "fraghdr_nexthdr m (hdr + sizeof_ipv6hdr) \<noteq> None" "fraghdr_offset_and_more m (hdr + sizeof_ipv6hdr) \<noteq> None"
    "fraghdr_id m (hdr + sizeof_ipv6hdr) \<noteq> None"
  using assms rd8_defined ld16_defined ld32_defined
  by (simp_all add: ip_version_def iphdr_id_def iphdr_frag_off_def iphdr_protocol_def iphdr_saddr_def
      iphdr_daddr_def ipv6hdr_nexthdr_def fraghdr_nexthdr_def fraghdr_offset_and_more_def fraghdr_id_def
      sizeof_defs del: not_None_eq)

lemma hash_defined:
  assumes "hdr + 48 \<le> length m"
  shows "hsaddr m hdr \<noteq> None" "hdaddr m hdr \<noteq> None"
proof -
  have "ipv6hdr_saddr m hdr k \<noteq> None" "ipv6hdr_daddr m hdr k \<noteq> None" if "k < 4" for k
    using assms that ld32_defined by (simp_all add: ipv6hdr_saddr_def ipv6hdr_daddr_def del: not_None_eq)
  from this [of 0] this [of 1] this [of 2] this [of 3]
  show "hsaddr m hdr \<noteq> None" "hdaddr m hdr \<noteq> None"
    unfolding hsaddr_def hdaddr_def using ip_fields_defined(1,5,6) [OF assms] by auto
qed

lemma fragment_tests_defined:
  assumes "hdr + 48 \<le> length m"
  shows "is_later_fragment4 m hdr \<noteq> None" "is_later_fragment6 m hdr \<noteq> None" "is_udp_fragment6 m hdr \<noteq> None"
    "aai_of_ipv4 m hdr \<noteq> None" "aai_of_ipv6 m hdr \<noteq> None" "is_candidate opts h m hdr \<noteq> None"
  using ip_fields_defined [OF assms] hash_defined [OF assms]
  unfolding is_later_fragment4_def is_later_fragment6_def is_udp_fragment6_def aai_of_ipv4_def aai_of_ipv6_def
    is_candidate_def has_caplen_def Let_def
  by auto

lemma transport_defined:
  assumes "hdr + 48 \<le> length m"
  shows "transport_header m hdr \<noteq> None" "is_udp m hdr \<noteq> None"
proof -
  obtain v n q u where "ip_version m hdr = Some v" "ipv6hdr_nexthdr m hdr = Some n" "iphdr_protocol m hdr = Some q"
    "is_udp_fragment6 m hdr = Some u"
    using ip_fields_defined(1,4,7) [OF assms] fragment_tests_defined(3) [OF assms] by blast
  then show "transport_header m hdr \<noteq> None" "is_udp m hdr \<noteq> None"
    by (auto simp: transport_header_def is_udp_def)
qed

lemma transport_header_bounds: "transport_header m hdr = Some th \<Longrightarrow> hdr < th \<and> th \<le> hdr + 48"
  by (auto simp: transport_header_def sizeof_defs elim!: bind_SomeE)

lemma skip_tunnel_defined:
  assumes "p + 48 \<le> length m"
  shows "\<exists>hdr. skip_tunnel_ip_header m p = Some hdr \<and> hdr \<le> p + 40"
  using ip_fields_defined [OF assms] by (auto simp: skip_tunnel_ip_header_def sizeof_defs)

lemma ethernet_parts_defined:
  assumes "et + 12 \<le> length m"
  shows "\<exists>p. ethernet_fail v m et = Some p \<and> (\<forall>q. p = Some q \<longrightarrow> q \<le> et + 10)"
    "\<exists>p. ethernet_qinq v m et = Some p \<and> (\<forall>q. p = Some q \<longrightarrow> q \<le> et + 10)"
    "\<exists>p. ethernet_pppoe v m et = Some p \<and> (\<forall>q. p = Some q \<longrightarrow> q \<le> et + 10)"
proof -
  have ld: "\<exists>w. ld16 m (et + k) = Some w" if "k \<le> 10" for k using ld16_defined [of "et + k" m] assms that by auto
  show f: "\<exists>p. ethernet_fail v m et = Some p \<and> (\<forall>q. p = Some q \<longrightarrow> q \<le> et + 10)"
    using assms by (simp add: ethernet_fail_def region_def)
  then obtain p where p: "ethernet_fail v m et = Some p" "\<forall>q. p = Some q \<longrightarrow> q \<le> et + 10" by blast
  show "\<exists>p. ethernet_qinq v m et = Some p \<and> (\<forall>q. p = Some q \<longrightarrow> q \<le> et + 10)"
    using ld [of 4] ld [of 8] p by (auto simp: ethernet_qinq_def)
  show "\<exists>p. ethernet_pppoe v m et = Some p \<and> (\<forall>q. p = Some q \<longrightarrow> q \<le> et + 10)"
    using ld [of 2] ld [of 8] p by (auto simp: ethernet_pppoe_def)
qed

lemma ethernet_defined:
  assumes "pkt + 28 \<le> length m"
  shows "\<exists>p. ethernet_get_header_ip v m pkt = Some p \<and> (\<forall>q. p = Some q \<longrightarrow> q \<le> pkt + 26)"
proof -
  obtain e0 e2 where e: "ld16 m (pkt + 12) = Some e0" "ld16 m (pkt + 12 + 4) = Some e2"
    using ld16_defined [of "pkt + 12" m] ld16_defined [of "pkt + 12 + 4" m] assms by auto
  have parts: "pkt + 12 + 12 \<le> length m" "pkt + 4 + 12 + 12 \<le> length m" using assms by simp_all
  have tagged: "\<exists>p. ethernet_get_header_ip v m (pkt + 4) = Some p \<and> (\<forall>q. p = Some q \<longrightarrow> q \<le> pkt + 26)"
    if "e2 = HTONS 0x8864"
  proof -
    have "ethernet_get_header_ip v m (pkt + 4) = ethernet_pppoe v m (pkt + 4 + 12)"
      using e(2) that by (intro ethernet_get_header_ip_pppoe) (simp add: add.commute)
    then show ?thesis using ethernet_parts_defined(3) [OF parts(2), of v] by fastforce
  qed
  note p = ethernet_parts_defined [OF parts(1), of v]
  show ?thesis
    using e p tagged
    by (subst ethernet_get_header_ip.simps) (fastforce simp: Let_def htons_eq_HTONS)
qed

lemma ip_header_defined:
  assumes "66 + 48 \<le> length m" "offset_to_ip opts \<le> 16"
  shows "\<exists>p. locate_ip opts m = Some p \<and>
    (\<forall>q. p = Some q \<longrightarrow> (\<exists>hdr. skip_tunnel_ip_header m q = Some hdr \<and> hdr \<le> 66))"
proof -
  have "\<exists>p. locate_ip opts m = Some p \<and> (\<forall>q. p = Some q \<longrightarrow> q \<le> 26)"
    using ethernet_defined [of 0 m] assms by (auto simp: locate_ip_def)
  then obtain p where p: "locate_ip opts m = Some p" "\<forall>q. p = Some q \<longrightarrow> q \<le> 26" by blast
  have "\<exists>hdr. skip_tunnel_ip_header m q = Some hdr \<and> hdr \<le> 66" if "p = Some q" for q
    using skip_tunnel_defined [of q m] p(2) that assms(1) by fastforce
  with p(1) show ?thesis by blast
qed

section \<open>Strings\<close>

lemma c_str_at_NUL:
  assumes "s ! j = 0" "j < length s"
  shows "\<exists>u. c_str s = Some u \<and> length u \<le> j"
  using assms
proof (induction s arbitrary: j)
  case (Cons b s)
  show ?case
  proof (cases "b = 0")
    case False
    with Cons.prems obtain j' where "j = Suc j'" by (cases j) auto
    with Cons.IH [of j'] Cons.prems False show ?thesis by auto
  qed simp
qed simp

lemma c_str_prefix: "\<exists>u. c_str (x @ NUL # y) = Some u \<and> length u \<le> length x"
  using c_str_at_NUL [of "x @ NUL # y" "length x"] by simp

lemma strstr_before_NUL: "strstr s nd = Some (Some k) \<Longrightarrow> j < k \<Longrightarrow> s ! j \<noteq> 0"
proof (induction s nd arbitrary: k j rule: strstr.induct)
  case (2 b bs nd)
  then obtain eq where eq: "strncmp_lit nd (b # bs) = Some eq" by (auto elim!: bind_SomeE)
  with "2.prems" have ne: "\<not> eq" "b \<noteq> 0" by (auto split: if_split_asm)
  with "2.prems"(1) eq obtain k' where k: "strstr bs nd = Some (Some k')" "k = Suc k'" by auto
  show ?case
  proof (cases j)
    case (Suc j')
    then show ?thesis using "2.IH" [OF eq _ ne(2) k(1)] "2.prems"(2) ne(1) k(2) by simp
  qed (use ne in simp)
qed (simp split: if_split_asm)

lemma scast_length: "n < 2 ^ 31 \<Longrightarrow> unat (scast (ucast (word_of_nat n :: u64) :: u32) :: u64) = n"
proof -
  assume n: "n < 2 ^ 31"
  have "(ucast (word_of_nat n :: u64) :: u32) = word_of_nat n"
    by (rule bit_word_eqI) (simp add: bit_simps)
  moreover have "(scast (word_of_nat n :: u32) :: u64) = word_of_nat n"
    using n signed_take_bit_int_eq_self [of 31 "int n"] by (simp add: signed_of_nat)
  ultimately show ?thesis using n by (simp add: unat_of_nat take_bit_nat_eq_self_iff)
qed

text \<open>The user part that \<open>get_sip_peername\<close> leaves is no longer than the header value.\<close>

lemma get_sip_peername_text:
  assumes "get_sip_peername m data data_len tag peername = Some (r, peername')"
    and "good_tag tag" "data + unat (scast data_len :: u64) \<le> length m"
    and "gettag m data (unat (scast data_len :: u64)) tag = Some (t, l)"
  shows "\<exists>u. c_str peername' = Some u \<and> length u \<le> max 5 l"
proof -
  note found = hdr.value_search_bounds [OF assms(2-4)]
  have copied: "\<exists>u. c_str peername' = Some u \<and> length u \<le> max 5 l"
    if "put_bytes peername (x @ [NUL]) = Some peername'" "length x \<le> max 5 l" for x
    using that c_str_prefix [of x] by (fastforce simp: put_bytes_def split: if_split_asm)
  have length_empty: "length (str ''empty'') \<le> max 5 l" by simp
  have fail: "\<exists>u. c_str peername' = Some u \<and> length u \<le> max 5 l" if "peername_fail peername = Some (r, peername')"
    using that copied [of "str ''empty''"] length_empty by (auto simp: peername_fail_def simp del: str_Cons elim!: bind_SomeE)
  have name: "\<exists>u. c_str peername' = Some u \<and> length u \<le> max 5 l"
    if "region m (r0 + 4) (r2 - (r0 + 4)) = Some name" "put_bytes peername (name @ [NUL]) = Some peername'"
      "memmem m t l nd = Some (Some r0)" "memmem m t l nd' = Some (Some r2)" "nd \<noteq> []" "nd' \<noteq> []" for r0 r2 name nd nd'
  proof -
    from found [OF that(5,3)] found [OF that(6,4)] have "r2 - (r0 + 4) \<le> l" by fastforce
    then show ?thesis using copied [OF that(2)] length_region [OF that(1)] by simp
  qed
  have ne: "str ''sip:'' \<noteq> []" "str ''tel:'' \<noteq> []" "str ''@'' \<noteq> []" "str ''>'' \<noteq> []" by simp_all
  from assms(1,4) show ?thesis
    unfolding get_sip_peername_def Let_def
    by (auto elim!: bind_SomeE simp del: str_Cons split: option.split_asm if_split_asm)
      (use fail name ne in blast)+
qed

section \<open>Header values\<close>

definition header_tags :: "byte list list" where
  "header_tags = [str ''From:'', str ''f:'', str ''To:'', str ''t:'', str ''Call-ID:'', str ''i:'']"

text \<open>The values of the headers that are copied have at most \<open>B\<close> bytes.\<close>

definition values_within :: "nat \<Rightarrow> mem \<Rightarrow> nat \<Rightarrow> nat \<Rightarrow> bool" where
  "values_within B m data n =
     list_all (\<lambda>tag. case gettag m data n tag of Some (_, l) \<Rightarrow> l \<le> B | None \<Rightarrow> True) header_tags"

lemma good_header_tags: "list_all good_tag header_tags"
  by (simp add: header_tags_def good_tag_def)

lemma good_content_tags: "good_tag (str ''Content-Type:'')" "good_tag (str ''c:'')"
  by (simp_all add: good_tag_def)

lemma header_tag_bound:
  "values_within B m data n \<Longrightarrow> tag \<in> set header_tags \<Longrightarrow> gettag m data n tag = Some (t, l) \<Longrightarrow> l \<le> B"
  by (auto simp: values_within_def list_all_iff dest!: bspec)

lemma peername2_defined:
  assumes reg: "data + n \<le> length m" "n < 2 ^ 31" and B: "values_within B m data n" "B \<le> 256"
    and tags: "tag1 \<in> set header_tags" "tag2 \<in> set header_tags"
  shows "\<exists>name u. peername2 m data (word_of_nat n) tag1 tag2 = Some name \<and> length name = 256 \<and>
    c_str name = Some u \<and> length u \<le> max 5 B"
proof -
  let ?n = "ucast (word_of_nat n :: u64) :: u32"
  have n: "unat (scast ?n :: u64) = n" using scast_length [OF reg(2)] .
  have call: "\<exists>r name u. get_sip_peername m data ?n tag buf = Some (r, name) \<and> length name = 256 \<and>
      c_str name = Some u \<and> length u \<le> max 5 B" if "tag \<in> set header_tags" "length buf = 256" for tag buf
  proof -
    have good: "good_tag tag" using good_header_tags that(1) by (simp add: list_all_iff)
    have reg': "data + unat (scast ?n :: u64) \<le> length m" using reg(1) n by simp
    have bound: "gettag m data (unat (scast ?n :: u64)) tag = Some (t, l) \<Longrightarrow> l \<le> B" for t l
      using header_tag_bound [OF B(1) that(1)] n by simp
    have "get_sip_peername m data ?n tag buf \<noteq> None"
      using that(2) bound B(2) by (intro get_sip_peername_defined [OF good reg']) fastforce+
    then obtain r name where r: "get_sip_peername m data ?n tag buf = Some (r, name)" by auto
    obtain t l where g: "gettag m data (unat (scast ?n :: u64)) tag = Some (t, l)"
      using hdr.scan_obtain [OF good reg'] .
    from get_sip_peername_text [OF r good reg' g] bound [OF g] get_sip_peername_result [OF r] r that(2)
    show ?thesis by fastforce
  qed
  obtain r name u where 1: "get_sip_peername m data ?n tag1 (replicate 256 0) = Some (r, name)" "length name = 256"
    "c_str name = Some u" "length u \<le> max 5 B" using call [OF tags(1), of "replicate 256 0"] by auto
  obtain r' name' u' where 2: "get_sip_peername m data ?n tag2 name = Some (r', name')" "length name' = 256"
    "c_str name' = Some u'" "length u' \<le> max 5 B" using call [OF tags(2) 1(2)] by auto
  show ?thesis using 1 2 by (cases "r = 0") (simp_all add: peername2_def)
qed

lemma gettag2_defined:
  assumes "data + n \<le> length m" "good_tag tag1" "good_tag tag2"
  shows "\<exists>s l. gettag2 m data n tag1 tag2 = Some (s, l) \<and>
    (case s of None \<Rightarrow> l = 0 | Some s \<Rightarrow> data \<le> s \<and> s + l < data + n) \<and>
    (gettag m data n tag1 = Some (s, l) \<or> gettag m data n tag2 = Some (s, l))"
proof -
  have one: "\<exists>s l. gettag m data n tag = Some (s, l) \<and>
    (case s of None \<Rightarrow> l = 0 | Some s \<Rightarrow> data \<le> s \<and> s + l < data + n)" if good: "good_tag tag" for tag
  proof -
    obtain s l where g: "gettag m data n tag = Some (s, l)" using hdr.scan_obtain [OF good assms(1)] .
    then show ?thesis using hdr.scan_bounds [OF good assms(1)] hdr.scan_null [OF good assms(1)]
      by (cases s) auto
  qed
  obtain s l where 1: "gettag m data n tag1 = Some (s, l)"
    "case s of None \<Rightarrow> l = 0 | Some s \<Rightarrow> data \<le> s \<and> s + l < data + n" using one [OF assms(2)] by blast
  obtain s' l' where 2: "gettag m data n tag2 = Some (s', l')"
    "case s' of None \<Rightarrow> l' = 0 | Some s \<Rightarrow> data \<le> s \<and> s + l' < data + n" using one [OF assms(3)] by blast
  show ?thesis using 1 2 by (cases s) (simp_all add: gettag2_def)
qed

section \<open>The SDP body\<close>

lemma NUL_in_drop:
  assumes "k \<le> e" "e < length m" "m ! e = NUL"
  shows "NUL \<in> set (drop k m)"
proof -
  have "drop k m ! (e - k) = NUL" "e - k < length (drop k m)" using assms by auto
  then show ?thesis by (metis nth_mem)
qed

lemma parse_sdp_defined:
  assumes "sdp \<le> e" "e + 19 \<le> length m" "e < 2 ^ 32" "m ! e = 0"
  shows "parse_sdp opts m sdp (e - sdp) ce \<noteq> None"
proof -
  have nul: "0 \<in> set (drop (sdp + (e - sdp)) m)" using NUL_in_drop [of e e m] assms by simp
  obtain r addr p where g: "get_ip_port_from_sdp m sdp (e - sdp) = Some (r, addr, p)"
    using get_ip_port_from_sdp_defined [OF _ nul] assms(1,2) by fastforce
  obtain u where u: "c_str (drop sdp m) = Some u" "length u \<le> e - sdp"
    using c_str_at_NUL [of "drop sdp m" "e - sdp"] assms diff_less_mono [of e "length m" sdp] by auto
  have "sdp_get_rtpmap_event m sdp \<noteq> None"
    using u assms by (intro sdp_get_rtpmap_event_defined [of _ _ "length u"]) (simp_all add: strlen_def)
  moreover obtain t where "memmem m (Some sdp) (e - sdp) (str ''udptl t38'') = Some t"
    using assms(1,2) memmem_defined [of sdp "e - sdp" m "str ''udptl t38''"] by fastforce
  ultimately show ?thesis using g by (auto simp: parse_sdp_def Let_def simp del: str_Cons)
qed

lemma learn_sdp_defined:
  assumes reg: "data + n + 19 \<le> length m" "data + n < 2 ^ 32" and nul: "m ! (data + n) = 0"
  shows "learn_sdp opts m data (word_of_nat n) i w \<noteq> None"
proof -
  have small: "unat (word_of_nat j :: u64) = j" if "j \<le> n" for j
    using reg(2) that by (simp add: unat_of_nat take_bit_nat_eq_self_iff)
  then have n: "unat (word_of_nat n :: u64) = n" by simp
  have zero: "0 \<in> set (drop k m)" if "k \<le> data + n" for k
    using NUL_in_drop [OF that] nul reg(1) by simp
  obtain s l where g: "gettag2 m data n (str ''Content-Type:'') (str ''c:'') = Some (s, l)"
    "case s of None \<Rightarrow> l = 0 | Some s \<Rightarrow> data \<le> s \<and> s + l < data + n"
    using gettag2_defined [OF _ good_content_tags, of data n m] reg(1) by auto
  have crlf: "NUL \<notin> set [CR, LF, CR, LF]" by simp
  obtain body where body: "strstr (drop data m) [CR, LF, CR, LF] = Some body"
    using strstr_defined [OF zero crlf] by fastforce
  have at: "data + k \<le> data + n" if "body = Some k" for k
    using strstr_before_NUL [of "drop data m" _ k n] body that nul reg(1) by (force simp: not_le)
  have cmp: "strncasecmp_eq q (drop s' m) (t @ [NUL]) \<noteq> None" if "s = Some s'" for q s' t
    using strncasecmp_defined zero g(2) that by fastforce
  have sdp: "sdp_body m data s l = Some None \<or> sdp_body m data s l = Some (map_option ((+) data) body)"
  proof (cases s)
    case (Some s')
    obtain a b where "strncasecmp_eq l (drop s' m) (str ''application/sdp'' @ [NUL]) = Some a"
      "strncasecmp_eq (min l 25) (drop s' m) (str ''multipart/mixed;boundary='' @ [NUL]) = Some b"
      using cmp [OF Some, of l "str ''application/sdp''"] cmp [OF Some, of "min l 25" "str ''multipart/mixed;boundary=''"]
      by (auto simp del: str_Cons)
    then show ?thesis using Some body by (cases a; cases b) (auto simp: sdp_body_def simp del: str_Cons)
  qed (simp add: sdp_body_def)
  have parse: "parse_sdp opts m (data + k) (unat (word_of_nat n - word_of_nat k :: u64)) ce \<noteq> None"
    if "body = Some k" for k ce
  proof -
    have k: "k \<le> n" using at [OF that] by simp
    then have diff: "(word_of_nat n - word_of_nat k :: u64) = word_of_nat (n - k)" by simp
    have "unat (word_of_nat n - word_of_nat k :: u64) = data + n - (data + k)"
      unfolding diff using small [of "n - k"] by (metis diff_le_self add_diff_cancel_left)
    then show ?thesis using parse_sdp_defined [of "data + k" "data + n" m opts ce] reg nul k by simp
  qed
  show ?thesis
  proof (cases body)
    case None
    then show ?thesis using g(1) n sdp by (auto simp: learn_sdp_def simp del: str_Cons)
  next
    case (Some k)
    obtain e where "parse_sdp opts m (data + k) (unat (word_of_nat n - word_of_nat k :: u64)) (table (ct w) ! i) = Some e"
      using parse [OF Some] by blast
    then show ?thesis using Some g(1) n sdp by (auto simp: learn_sdp_def simp del: str_Cons)
  qed
qed

section \<open>Names and directories\<close>

text \<open>
  For callers, callees and Call-IDs of at most \<open>B\<close> bytes, the template expands within its buffers to
  a path of at most 255 bytes.
\<close>

definition names_fit :: "nat \<Rightarrow> byte list \<Rightarrow> (byte list \<Rightarrow> int \<Rightarrow> byte list) \<Rightarrow> bool" where
  "names_fit B fmt strftime \<longleftrightarrow> NUL \<notin> set fmt \<and>
     (\<forall>from to callid t. length from \<le> B \<and> length to \<le> B \<and> length callid \<le> B \<longrightarrow>
        (let s = template_text from to callid fmt in
         length s < length fmt + 256 \<and> length (strftime s t) \<le> 255 \<and> NUL \<notin> set (strftime s t)))"

lemma expand_within:
  assumes fit: "names_fit B fmt strftime"
    and args: "c_str f = Some from" "c_str g = Some to" "c_str i = Some callid"
      "length from \<le> B" "length to \<le> B" "length callid \<le> B"
  shows "\<exists>fn. expand_dir_template strftime 1024 (fmt @ [NUL]) f g i t = Some fn \<and> length fn \<le> 255 \<and> NUL \<notin> set fn"
proof -
  let ?s = "template_text from to callid fmt"
  have s: "length ?s < length fmt + 256" "length (strftime ?s t) \<le> 255" "NUL \<notin> set (strftime ?s t)" "NUL \<notin> set fmt"
    using fit args(4-6) by (auto simp: names_fit_def Let_def)
  have "expand_loop (length fmt + 256) f g i fmt [] = Some (?s @ [NUL])"
    using expand_loop_text [OF args(1-3), of "[]" fmt] s(1) by simp
  moreover have "c_str (?s @ [NUL]) = Some ?s" using template_text_no_NUL [OF s(4)] by (simp add: c_str_append_NUL)
  ultimately show ?thesis using s by (simp add: expand_dir_template_def c_str_append_NUL Let_def)
qed

lemma mkdir_p_defined: "NUL \<notin> set path \<Longrightarrow> length path \<le> 255 \<Longrightarrow> mkdir_p bsd stat mkdir path st \<noteq> None"
proof (induction "length path" arbitrary: path st rule: less_induct)
  case less
  have s: "c_str (strlcpy bsd 256 path) = Some path" using strlcpy_short less.prems by blast
  show ?case
  proof (cases "strrchr path SLASH")
    case None
    with s less.prems show ?thesis by (subst mkdir_p.simps) auto
  next
    case (Some k)
    then have k: "k < length path" by (rule strrchr_less)
    then have "mkdir_p bsd stat mkdir (take k path) st \<noteq> None"
      using less.prems less.hyps [of "take k path" st] by (auto dest: in_set_takeD)
    with s Some less.prems show ?thesis by (subst mkdir_p.simps) (auto split: option.split)
  qed
qed

lemma strip_slashes_subset: "set (strip_slashes p) \<subseteq> set p" "length (strip_slashes p) \<le> length p"
  using set_dropWhileD [of _ "\<lambda>b. b = SLASH" "rev p"] length_dropWhile_le [of "\<lambda>b. b = SLASH" "rev p"]
  by (auto simp: strip_slashes_def)

lemma dirname_text:
  assumes "NUL \<notin> set p" "length p \<le> 255"
  shows "NUL \<notin> set (dirname p) \<and> length (dirname p) \<le> 255"
proof -
  let ?q = "strip_slashes p"
  let ?d = "rev (dropWhile (\<lambda>b. b \<noteq> SLASH) (rev ?q))"
  have q: "set ?q \<subseteq> set p" "length ?q \<le> length p" by (rule strip_slashes_subset)+
  have d: "set ?d \<subseteq> set ?q" "length ?d \<le> length ?q"
    using set_dropWhileD [of _ "\<lambda>b. b \<noteq> SLASH" "rev ?q"] length_dropWhile_le [of "\<lambda>b. b \<noteq> SLASH" "rev ?q"] by auto
  have e: "set (strip_slashes ?d) \<subseteq> set ?d" "length (strip_slashes ?d) \<le> length ?d" by (rule strip_slashes_subset)+
  define e where "e = strip_slashes ?d"
  have "set e \<subseteq> set p" unfolding e_def using q(1) d(1) e(1) by blast
  moreover have "length e \<le> length p" unfolding e_def using q(2) d(2) e(2) by linarith
  ultimately have "NUL \<notin> set e" "length e \<le> 255" using assms by auto
  moreover have "dirname p = str ''.'' \<or> dirname p = str ''/'' \<or> dirname p = e"
    unfolding dirname_def Let_def e_def by (simp only: split: if_split) blast
  ultimately show ?thesis by auto
qed

lemma open_file_defined:
  assumes fit: "names_fit B (opt_fntemplate opts) (env_strftime env)"
    and args: "c_str f = Some from" "c_str g = Some to" "c_str c = Some callid"
      "length from \<le> B" "length to \<le> B" "length callid \<le> B"
    and slot: "length (fn_pcap (table (ct w) ! i)) = 128"
  shows "open_file opts env f g c t i w \<noteq> None"
proof -
  obtain fn where fn: "expand_dir_template (env_strftime env) 1024 (opt_fntemplate opts @ [NUL]) f g c t = Some fn"
    "length fn \<le> 255" "NUL \<notin> set fn"
    using expand_within [OF fit args] by blast
  obtain r where r: "mkdir_p (use_bsd env) (fs_stat (env_fs env)) (fs_mkdir (env_fs env)) (dirname fn) (fs w) = Some r"
    using mkdir_p_defined [of "dirname fn" "use_bsd env" "fs_stat (env_fs env)" "fs_mkdir (env_fs env)" "fs w"]
      dirname_text [OF fn(3,2)] by auto
  have "length (strlcpy (use_bsd env) 128 fn) \<le> 128" by (simp add: strlcpy_def min_def)
  then have "put_bytes (fn_pcap (table (ct w) ! i)) (strlcpy (use_bsd env) 128 fn) \<noteq> None"
    using slot by (simp add: put_bytes_def)
  then show ?thesis using fn(1) r by (auto simp: open_file_def Let_def split: prod.split)
qed

lemma new_call_defined:
  assumes "names_fit B (opt_fntemplate opts) (env_strftime env)"
    and "c_str f = Some from" "c_str g = Some to" "c_str c = Some callid"
    and "length from \<le> B" "length to \<le> B" "length callid \<le> B"
    and "length (fn_pcap (table (ct w) ! i)) = 128"
  shows "new_call opts env meth f g c t i w \<noteq> None"
  using open_file_defined [OF assms(1-7), of "w\<lparr>call_skip_cnt := n\<rparr>" for n] assms(8)
  by (simp add: new_call_def Let_def split: prod.split)

section \<open>SIP packets\<close>

lemma register_fragments_defined:
  assumes "hdr + 48 \<le> length m"
  shows "register_fragments m hdr i w \<noteq> None"
proof -
  note d = ip_fields_defined [OF assms] fragment_tests_defined(4,5) [OF assms]
  obtain v f n a b where "ip_version m hdr = Some v" "iphdr_frag_off m hdr = Some f" "ipv6hdr_nexthdr m hdr = Some n"
    "aai_of_ipv4 m hdr = Some a" "aai_of_ipv6 m hdr = Some b"
    using d(1,3,7,13,14) by auto
  then show ?thesis by (simp add: register_fragments_def Let_def)
qed

lemma call_packet_defined:
  assumes "hdr + 48 \<le> length m" "data + n + 19 \<le> length m" "data + n < 2 ^ 32" "m ! (data + n) = 0"
  shows "call_packet opts m hdr data (word_of_nat n) meth i w \<noteq> None"
proof -
  obtain w' where "learn_sdp opts m data (word_of_nat n) i
      (if meth = str ''BYE'' then with_element i (\<lambda>e. e\<lparr>had_bye := 1\<rparr>) w else w) = Some w'"
    using learn_sdp_defined [OF assms(2-4)] by blast
  then show ?thesis
    using register_fragments_defined [OF assms(1)] by (simp add: call_packet_def Let_def del: str_Cons)
qed

text \<open>A new call: its element, its file, then the packet as for a known call.\<close>

lemma add_new_call_defined:
  fixes w :: "'fs world"
  assumes fit: "names_fit B (opt_fntemplate opts) (env_strftime env)"
    and names: "c_str f = Some f'" "length f' \<le> B" "c_str g = Some g'" "length g' \<le> B" "c_str c = Some c'" "length c' \<le> B"
    and add_ok: "calltable_add (ct w) cid l f g t \<noteq> None"
    and inv: "ct_inv (ct w)" "find_by_call_id (ct w) cid l = None"
    and packet: "\<And>i w1. call_packet opts m hdr data n meth i (w1 :: 'fs world) \<noteq> None"
  shows "(do {
      (c1, idx, fx) \<leftarrow> calltable_add (ct w) cid l f g t;
      let w = emit fx (w\<lparr>ct := c1\<rparr>);
      w \<leftarrow> new_call opts env meth f g c t idx w;
      call_packet opts m hdr data n meth idx w }) \<noteq> None"
proof -
  obtain ct1 idx fx where add: "calltable_add (ct w) cid l f g t = Some (ct1, idx, fx)"
    using add_ok by auto
  have "ct_inv ct1" using calltable_add_inv [OF inv add] .
  moreover have "idx < length (table ct1)"
    using find_by_call_id_bound [OF calltable_add_find_same [OF inv add]] by simp
  ultimately have "length (fn_pcap (table ct1 ! idx)) = 128"
    using ct_inv_element [of ct1 idx] by (simp add: element_ok_def)
  then obtain w2 where "new_call opts env meth f g c t idx (emit fx (w\<lparr>ct := ct1\<rparr>)) = Some w2"
    using new_call_defined [OF fit names(1,3,5,2,4,6), where w = "emit fx (w\<lparr>ct := ct1\<rparr>)"] by fastforce
  then show ?thesis using add packet by (simp add: Let_def)
qed

text \<open>The Call-ID copied into its buffer of 512 bytes.\<close>

lemma callid_copied:
  assumes "case s of None \<Rightarrow> l = 0 | Some s \<Rightarrow> data \<le> s \<and> s + l < data + n" "data + n \<le> length m" "l \<le> 255"
  obtains bytes c c' cs where "(case s of Some s \<Rightarrow> region m s l | None \<Rightarrow> Some []) = Some bytes"
    "put_bytes (replicate 512 0) bytes = Some c" "wr8 c l 0 = Some c'" "c_str c' = Some cs" "length cs \<le> l"
proof -
  have "\<exists>bytes. (case s of Some s \<Rightarrow> region m s l | None \<Rightarrow> Some []) = Some bytes \<and> length bytes = l"
    using assms(1,2) by (cases s) (auto simp: region_def)
  then obtain bytes where bytes: "(case s of Some s \<Rightarrow> region m s l | None \<Rightarrow> Some []) = Some bytes" "length bytes = l"
    by blast
  obtain c where c: "put_bytes (replicate 512 0) bytes = Some c" "length c = 512"
    using bytes(2) assms(3) put_bytes_length [of "replicate 512 0" bytes] by (cases "put_bytes (replicate 512 0) bytes")
      (simp_all add: put_bytes_eq_None)
  have c': "wr8 c l 0 = Some (c[l := 0])" using c(2) assms(3) by (simp add: wr8_def)
  obtain cs where "c_str (c[l := 0]) = Some cs" "length cs \<le> l"
    using c_str_at_NUL [of "c[l := 0]" l] c(2) assms(3) by fastforce
  with bytes(1) c(1) c' show thesis by (rule that)
qed

lemma handle_sip_defined:
  assumes reg: "hdr + 48 \<le> length m" "data + n + 19 \<le> length m" "data + n < 2 ^ 31"
    and B: "values_within B (m[data + n := 0]) data n" "5 \<le> B" "B \<le> 255"
    and fit: "names_fit B (opt_fntemplate opts) (env_strftime env)"
    and inv: "ct_inv (ct w)"
  shows "handle_sip opts env h m hdr data (word_of_nat n) meth w \<noteq> None"
proof -
  have n: "unat (word_of_nat n :: u64) = n" "n < 2 ^ 31" using reg(3) by (simp_all add: unat_of_nat take_bit_nat_eq_self_iff)
  define m' where "m' = m[data + n := 0]"
  have m': "length m' = length m" "m' ! (data + n) = 0" "wr8 m (data + n) 0 = Some m'" "data + n \<le> length m'"
    using reg(2) by (simp_all add: m'_def wr8_def)
  note call = call_packet_defined [of hdr m' data n]
  have tags: "str ''From:'' \<in> set header_tags" "str ''f:'' \<in> set header_tags" "str ''To:'' \<in> set header_tags"
    "str ''t:'' \<in> set header_tags" "str ''Call-ID:'' \<in> set header_tags" "str ''i:'' \<in> set header_tags"
    by (simp_all add: header_tags_def)
  have B': "values_within B m' data n" "B \<le> 256" "max 5 B = B" using B by (simp_all add: m'_def)
  obtain f caller_str where f: "peername2 m' data (word_of_nat n) (str ''From:'') (str ''f:'') = Some f" "length f = 256"
    "c_str f = Some caller_str" "length caller_str \<le> B"
    using peername2_defined [OF m'(4) n(2) B'(1,2) tags(1,2)] B'(3) by auto
  obtain g called_str where g: "peername2 m' data (word_of_nat n) (str ''To:'') (str ''t:'') = Some g" "length g = 256"
    "c_str g = Some called_str" "length called_str \<le> B"
    using peername2_defined [OF m'(4) n(2) B'(1,2) tags(3,4)] B'(3) by auto
  have good: "good_tag (str ''Call-ID:'')" "good_tag (str ''i:'')"
    using good_header_tags tags(5,6) by (simp_all add: list_all_iff del: str_Cons)
  obtain s l where sl: "gettag2 m' data n (str ''Call-ID:'') (str ''i:'') = Some (s, l)"
    "case s of None \<Rightarrow> l = 0 | Some s \<Rightarrow> data \<le> s \<and> s + l < data + n"
    "gettag m' data n (str ''Call-ID:'') = Some (s, l) \<or> gettag m' data n (str ''i:'') = Some (s, l)"
    using gettag2_defined [OF m'(4) good] by blast
  have l: "l \<le> B" using header_tag_bound [OF B'(1) tags(5)] header_tag_bound [OF B'(1) tags(6)] sl(3) by blast
  have "l \<le> 255" using l B(3) by simp
  then obtain bytes c c' cs where copied: "(case s of Some s \<Rightarrow> region m' s l | None \<Rightarrow> Some []) = Some bytes"
    "put_bytes (replicate 512 0) bytes = Some c" "wr8 c l 0 = Some c'" "c_str c' = Some cs" "length cs \<le> l"
    using callid_copied [OF sl(2) m'(4)] by blast
  have known: "call_packet opts m' hdr data (word_of_nat n) meth i w1 \<noteq> None" for i and w1 :: "'a world"
    using call reg m' by simp
  have add: "calltable_add (ct w) (drop s' m') l f g (tv_sec h) \<noteq> None" if "s = Some s'" for s'
    using sl(2) that m'(4) f(2) g(2) by (intro calltable_add_defined [OF inv]) auto
  note new = add_new_call_defined [OF fit f(3,4) g(3,4) copied(4) le_trans [OF copied(5) l] add inv _ known]
  let ?matched = "\<not> number_filter_in_use opts \<or> number_filter env caller_str \<or> number_filter env called_str"
  have "handle_sip opts env h m hdr data (word_of_nat n) meth w =
     (case s of
       None \<Rightarrow> Some w
     | Some s \<Rightarrow>
         (case find_by_call_id (ct w) (drop s m') l of
            Some idx \<Rightarrow> call_packet opts m' hdr data (word_of_nat n) meth idx w
          | None \<Rightarrow>
              if \<not> ?matched then Some w
              else do {
                (c, idx, fx) \<leftarrow> calltable_add (ct w) (drop s m') l f g (tv_sec h);
                let w = emit fx (w\<lparr>ct := c\<rparr>);
                w \<leftarrow> new_call opts env meth f g c' (tv_sec h) idx w;
                call_packet opts m' hdr data (word_of_nat n) meth idx w }))"
    unfolding handle_sip_def n(1) m'(3) bind.bind_lunit
    by (simp only: f(1,3) g(1,3) sl(1) copied(1-3) bind.bind_lunit prod.case Let_def)
  also have "\<dots> \<noteq> None"
  proof (cases s)
    case (Some s')
    show ?thesis
    proof (cases "find_by_call_id (ct w) (drop s' m') l")
      case None
      show ?thesis using new [OF Some None] Some None by (cases ?matched) simp_all
    next
      case idx: (Some idx)
      show ?thesis using known [of idx w] Some idx by simp
    qed
  qed simp
  finally show ?thesis .
qed

section \<open>Packets\<close>

text \<open>
  What the theorem asks of a delivered packet. The buffer has at least 128 bytes, and 20 more than
  were captured (the code looks at most that far past the end of an SDP body). When the packet is
  looked into, its payload starts inside the captured bytes, and the header values that are copied
  have at most \<open>B\<close> bytes.
\<close>

definition payload_ok :: "nat \<Rightarrow> opts \<Rightarrow> pkthdr \<Rightarrow> mem \<Rightarrow> nat \<Rightarrow> bool" where
  "payload_ok B opts h m hdr =
     (case transport_header m hdr of
        None \<Rightarrow> True
      | Some th \<Rightarrow>
          (case payload m hdr th of
             None \<Rightarrow> True
           | Some data \<Rightarrow>
               (let n = unat (min (len h) (caplen h)) in
                data \<le> n \<and> values_within B (m[n := 0]) data (n - data))))"

definition packet_ok :: "nat \<Rightarrow> opts \<Rightarrow> delivery \<Rightarrow> bool" where
  "packet_ok B opts d =
     (case d of
        Timeout \<Rightarrow> True
      | Packet h m \<Rightarrow>
          unat (min (len h) (caplen h)) < 2 ^ 31 \<and> unat (min (len h) (caplen h)) + 20 \<le> length m \<and>
          128 \<le> length m \<and>
          (case ip_header opts m of
             Some (Some hdr) \<Rightarrow> is_candidate opts h m hdr = Some True \<longrightarrow> payload_ok B opts h m hdr
           | _ \<Rightarrow> True))"

lemma payload_length_nat:
  assumes "data \<le> unat (min (len h) (caplen h))"
  shows "payload_length h data = word_of_nat (unat (min (len h) (caplen h)) - data)"
proof -
  have "(ucast (min (len h) (caplen h)) :: u64) = word_of_nat (unat (min (len h) (caplen h)))"
    by (transfer, simp)
  then show ?thesis using assms by (simp add: payload_length_def)
qed

lemma payload_defined:
  assumes "hdr + 48 \<le> length m" "th + 13 \<le> length m"
  shows "payload m hdr th \<noteq> None"
proof -
  obtain u where "is_udp m hdr = Some u" using transport_defined(2) [OF assms(1)] by blast
  moreover have "rd8 m (th + 12) \<noteq> None" using assms(2) by (intro rd8_defined) simp
  ultimately show ?thesis by (auto simp: payload_def tcphdr_doff_def)
qed

lemma rtp_lookup_defined:
  assumes "a \<noteq> None" "p \<noteq> None" "s \<noteq> None"
  shows "\<exists>r. rtp_lookup save a p pm s c = Some r"
  using assms by (auto simp: rtp_lookup_def)

lemma rtp_packet_defined:
  assumes "data + 1 < length m"
  shows "rtp_packet opts h m data i w \<noteq> None"
  using rd8_defined [OF assms] by (auto simp: rtp_packet_def reads_def split: option.split)

lemma udp_ports_defined:
  assumes "th + 4 \<le> length m"
  shows "udphdr_source m th \<noteq> None" "udphdr_dest m th \<noteq> None"
  using assms ld16_defined by (simp_all add: udphdr_source_def udphdr_dest_def del: not_None_eq)

lemma rtp_mode_defined:
  assumes "th + 4 \<le> length m"
  shows "rtp_mode opts m th \<noteq> None"
  using udp_ports_defined [OF assms] by (auto simp: rtp_mode_def)

lemma sip_stage_defined:
  assumes "hdr + 48 \<le> length m" "data + n + 20 \<le> length m" "data + n < 2 ^ 31"
    and "values_within B (m[data + n := 0]) data n" "5 \<le> B" "B \<le> 255"
    and "names_fit B (opt_fntemplate opts) (env_strftime env)" "ct_inv (ct w)"
  shows "sip_stage opts env h m hdr data (word_of_nat n) w \<noteq> None"
proof -
  obtain b meth where "get_method m data 10 = Some (b, meth)"
    using get_method_defined [of data 9 m] assms(2) by (auto simp: numeral_eq_Suc)
  moreover obtain r where "memcmp_eq m data (str ''SIP/2.0 '') = Some r"
    using memcmp_eq_Some [of data "str ''SIP/2.0 ''" m] assms(2) by simp
  moreover have "handle_sip opts env h m hdr data (word_of_nat n) meth w \<noteq> None"
    using assms by (intro handle_sip_defined) auto
  ultimately show ?thesis by (auto simp: sip_stage_def simp del: str_Cons)
qed

lemma handle_payload_defined:
  assumes mem: "hdr \<le> 66" "128 \<le> length m"
      "unat (min (len h) (caplen h)) < 2 ^ 31" "unat (min (len h) (caplen h)) + 20 \<le> length m"
    and ok: "payload_ok B opts h m hdr" "5 \<le> B" "B \<le> 255"
    and fit: "names_fit B (opt_fntemplate opts) (env_strftime env)" and inv: "ct_inv (ct w)"
  shows "handle_payload opts env h m hdr w \<noteq> None"
proof -
  let ?n = "unat (min (len h) (caplen h))"
  have hdr: "hdr + 48 \<le> length m" using mem(1,2) by simp
  obtain th where th: "transport_header m hdr = Some th" "th \<le> 114"
    using transport_defined(1) [OF hdr] transport_header_bounds mem(1) by fastforce
  obtain data where data: "payload m hdr th = Some data"
    using payload_defined [OF hdr, of th] th(2) mem(2) by auto
  then have d: "data \<le> ?n" "values_within B (m[data + (?n - data) := 0]) data (?n - data)"
    using ok(1) th(1) by (auto simp: payload_ok_def Let_def)
  obtain save pm rtcp where mode: "rtp_mode opts m th = Some (save, pm, rtcp)"
    using rtp_mode_defined [of th m opts] th(2) mem(2) by auto
  have ssrc: "get_ssrc m data rtcp \<noteq> None"
    using ld32_defined [of _ m] d(1) mem(4) by (auto simp: get_ssrc_def simp del: not_None_eq)
  have ports: "udphdr_source m th \<noteq> None" "udphdr_dest m th \<noteq> None" using udp_ports_defined [of th m] th(2) mem(2) by auto
  obtain c hit where l1: "rtp_lookup save (hdaddr m hdr) (udphdr_dest m th) pm (get_ssrc m data rtcp) (ct w) = Some (c, hit)"
    using rtp_lookup_defined [OF hash_defined(2) [OF hdr] ports(2) ssrc] by fastforce
  obtain c' hit' where l2: "rtp_lookup save (hsaddr m hdr) (udphdr_source m th) pm (get_ssrc m data rtcp) c = Some (c', hit')"
    using rtp_lookup_defined [OF hash_defined(1) [OF hdr] ports(1) ssrc] by fastforce
  have inv1: "ct_inv c" using rtp_lookup_steps [OF l1 inv] steps_inv inv by blast
  have inv2: "ct_inv c'" using rtp_lookup_steps [OF l2 inv1] steps_inv inv1 by blast
  have rtp: "rtp_packet opts h m data i v \<noteq> None" for i and v :: "'a world"
    using d(1) mem(4) by (intro rtp_packet_defined) simp
  have "sip_stage opts env h m hdr data (word_of_nat (?n - data)) (w\<lparr>ct := c'\<rparr>) \<noteq> None"
    using hdr d mem(3,4) ok(2,3) fit inv2 by (intro sip_stage_defined) auto
  then have sip: "sip_stage opts env h m hdr data (payload_length h data) (w\<lparr>ct := c'\<rparr>) \<noteq> None"
    using payload_length_nat [OF d(1)] by simp
  show ?thesis
    unfolding handle_payload_def Let_def
    using th(1) data mode l1 l2 rtp sip
    by (cases hit; cases hit') (auto simp: Let_def)
qed

lemma later_fragments_defined:
  assumes "hdr + 48 \<le> length m"
  shows "later_fragment4 opts m hdr w \<noteq> None" "later_fragment6 opts m hdr w \<noteq> None"
proof -
  obtain f a b n x where "iphdr_frag_off m hdr = Some f" "aai_of_ipv4 m hdr = Some a" "aai_of_ipv6 m hdr = Some b"
    "fraghdr_nexthdr m (hdr + sizeof_ipv6hdr) = Some n" "fraghdr_offset_and_more m (hdr + sizeof_ipv6hdr) = Some x"
    using ip_fields_defined(3,10,11) [OF assms] fragment_tests_defined(4,5) [OF assms] by auto
  then show "later_fragment4 opts m hdr w \<noteq> None" "later_fragment6 opts m hdr w \<noteq> None"
    by (auto simp: later_fragment4_def later_fragment6_def Let_def split: prod.split option.split)
qed

lemma process_packet_defined:
  assumes ok: "packet_ok B opts (Packet h m)" "offset_to_ip opts \<le> 16" "5 \<le> B" "B \<le> 255"
    and fit: "names_fit B (opt_fntemplate opts) (env_strftime env)" and inv: "ct_inv (ct w)"
  shows "process_packet opts env h m w \<noteq> None"
proof -
  have mem: "unat (min (len h) (caplen h)) < 2 ^ 31" "unat (min (len h) (caplen h)) + 20 \<le> length m" "128 \<le> length m"
    using ok(1) by (auto simp: packet_ok_def)
  let ?w = "periodic_cleanup (tv_sec h) w"
  have inv': "ct_inv (ct ?w)" using periodic_cleanup_steps steps_inv inv by blast
  obtain p where p: "locate_ip opts m = Some p"
    "\<forall>q. p = Some q \<longrightarrow> (\<exists>hdr. skip_tunnel_ip_header m q = Some hdr \<and> hdr \<le> 66)"
    using ip_header_defined [OF _ ok(2), of m] mem(3) by auto
  show ?thesis
  proof (cases p)
    case None
    then show ?thesis using p(1) by (simp add: process_packet_def Let_def)
  next
    case (Some q)
    then obtain hdr where hdr: "skip_tunnel_ip_header m q = Some hdr" "hdr \<le> 66" using p(2) by blast
    then have len: "hdr + 48 \<le> length m" using mem(3) by simp
    have ip: "ip_header opts m = Some (Some hdr)" using p(1) Some hdr(1) by (simp add: ip_header_def)
    obtain l4 l6 cand where t: "is_later_fragment4 m hdr = Some l4" "is_later_fragment6 m hdr = Some l6"
      "is_candidate opts h m hdr = Some cand"
      using fragment_tests_defined(1,2,6) [OF len] by fastforce
    have "handle_payload opts env h m hdr ?w \<noteq> None" if cand
    proof -
      have "payload_ok B opts h m hdr" using ok(1) ip t(3) that by (simp add: packet_ok_def)
      then show ?thesis using handle_payload_defined [OF hdr(2) mem(3,1,2) _ ok(3,4) fit inv'] by simp
    qed
    then show ?thesis
      using p(1) Some hdr(1) t later_fragments_defined [OF len, of opts ?w]
      by (simp add: process_packet_def Let_def)
  qed
qed

lemma capture_loop_defined:
  "list_all (packet_ok B opts) ds \<Longrightarrow> offset_to_ip opts \<le> 16 \<Longrightarrow> 5 \<le> B \<Longrightarrow> B \<le> 255 \<Longrightarrow>
   names_fit B (opt_fntemplate opts) (env_strftime env) \<Longrightarrow> ct_inv (ct w) \<Longrightarrow>
   capture_loop opts env ds w \<noteq> None"
proof (induction opts env ds w rule: capture_loop.induct)
  case (3 opts env h m ds w)
  then obtain w1 where w1: "process_packet opts env h m w = Some w1"
    using process_packet_defined [of B opts h m env w] by auto
  have "ct_inv (ct w1)" using steps_inv [OF process_packet_steps [OF w1 "3.prems"(6)] "3.prems"(6)] .
  with "3.IH" [OF w1] "3.prems" w1 show ?case by simp
qed simp_all


lemma test_names_fit: "names_fit 8 (opt_fntemplate test_opts) (env_strftime test_env)"
proof -
  have "NUL \<notin> sanitize ` set x" for x using sanitize_safe(1) by auto
  then show ?thesis by (auto simp: names_fit_def test_opts_def test_env_def Let_def)
qed

definition roomy_packet :: mem where
  "roomy_packet = udp_packet [0x13, 0xc4] [0x13, 0xc4] (str ''INVITE b'' @ [LF] @ str ''i: a'' @ [LF]) @ replicate 86 0"

definition roomy_delivery :: delivery where
  "roomy_delivery = Packet \<lparr>tv_sec = 1000, caplen = 42, len = 42\<rparr> roomy_packet"

lemma roomy_values: "values_within 8 (roomy_packet[42 := 0]) 28 14"
  by code_simp

lemma roomy_packet_ok:
  assumes "offset_to_ip opts = 0"
  shows "packet_ok 8 opts roomy_delivery"
proof -
  have "skip_tunnel_ip_header roomy_packet 0 = Some 0" "transport_header roomy_packet 0 = Some 20"
    "payload roomy_packet 0 20 = Some 28" by code_simp+
  moreover from this(1) have "ip_header opts roomy_packet = Some (Some 0)"
    using assms by (simp add: ip_header_def locate_ip_def sizeof_defs)
  moreover have "length roomy_packet = 128" by (simp add: roomy_packet_def udp_packet_def)
  ultimately show ?thesis
    using roomy_values by (simp add: packet_ok_def roomy_delivery_def payload_ok_def)
qed


end
