(* ===== verification/CaptureFragments.thy ===== *)
theory CaptureFragments
  imports CaptureRuns
begin

text \<open>
  Later IP fragments in the packet loop of \<open>main\<close>: a datagram whose first fragment is a SIP packet of a
  recorded call, over IPv4 and IPv6, and what the clean-up of the call does to it.
\<close>

section \<open>Later fragments of a datagram\<close>

text \<open>
  What the packet loop tests: the packet is a later fragment of the datagram with this key, and
  \<open>mf\<close> is its more-fragments flag.
\<close>

definition later_fragment_of :: "opts \<Rightarrow> addr_addr_id \<Rightarrow> bool \<Rightarrow> mem \<Rightarrow> bool" where
  "later_fragment_of opts aai mf m =
     (case ip_header opts m of
        Some (Some hdr) \<Rightarrow>
          is_later_fragment4 m hdr = Some True \<and> aai_of_ipv4 m hdr = Some aai \<and>
            map_option (\<lambda>x. x AND htons 0x2000 \<noteq> 0) (iphdr_frag_off m hdr) = Some mf \<or>
          is_later_fragment4 m hdr = Some False \<and> is_later_fragment6 m hdr = Some True \<and>
            fraghdr_nexthdr m (hdr + sizeof_ipv6hdr) = Some IPPROTO_UDP \<and> aai_of_ipv6 m hdr = Some aai \<and>
            map_option (\<lambda>x. htons x AND 1 \<noteq> 0) (fraghdr_offset_and_more m (hdr + sizeof_ipv6hdr)) = Some mf
      | _ \<Rightarrow> False)"

text \<open>And the tests of a first fragment, when its call has been found.\<close>

definition first_fragment_of :: "addr_addr_id \<Rightarrow> mem \<Rightarrow> nat \<Rightarrow> bool" where
  "first_fragment_of aai m hdr \<longleftrightarrow>
     ip_version m hdr = Some 4 \<and> iphdr_frag_off m hdr = Some (htons 0x2000) \<and> aai_of_ipv4 m hdr = Some aai \<or>
     ip_version m hdr = Some 6 \<and> ipv6hdr_nexthdr m hdr = Some IPPROTO_FRAGMENT \<and> aai_of_ipv6 m hdr = Some aai"

lemma later_fragment_step:
  assumes "later_fragment_of opts aai mf m" "ipfrags (ct (periodic_cleanup (tv_sec h) w)) aai = Some (Some f)"
  shows "process_packet opts env h m w = Some
    (let w1 = emit (dump_packet opts f) (periodic_cleanup (tv_sec h) w)
     in if mf then w1 else w1\<lparr>ct := delete_ipfrag (ct w1) aai\<rparr>)"
proof -
  let ?w = "periodic_cleanup (tv_sec h) w"
  have get: "get_ipfrag (ct ?w) aai = (ct ?w, Some f)" using assms(2) by (simp add: get_ipfrag_def)
  from assms(1) obtain hdr where ih: "ip_header opts m = Some (Some hdr)"
    by (auto simp: later_fragment_of_def split: option.split_asm)
  then obtain p where ip: "locate_ip opts m = Some (Some p)" "skip_tunnel_ip_header m p = Some hdr"
    by (auto simp: ip_header_def elim!: bind_SomeE split: option.split_asm)
  from assms(1) ih consider
    (v4) "is_later_fragment4 m hdr = Some True" "aai_of_ipv4 m hdr = Some aai"
      "map_option (\<lambda>x. x AND htons 0x2000 \<noteq> 0) (iphdr_frag_off m hdr) = Some mf"
  | (v6) "is_later_fragment4 m hdr = Some False" "is_later_fragment6 m hdr = Some True"
      "fraghdr_nexthdr m (hdr + sizeof_ipv6hdr) = Some IPPROTO_UDP" "aai_of_ipv6 m hdr = Some aai"
      "map_option (\<lambda>x. htons x AND 1 \<noteq> 0) (fraghdr_offset_and_more m (hdr + sizeof_ipv6hdr)) = Some mf"
    by (auto simp: later_fragment_of_def)
  then show ?thesis
  proof cases
    case v4
    then show ?thesis using ip get by (auto simp: process_packet_def later_fragment4_def Let_def)
  next
    case v6
    then show ?thesis using ip get by (auto simp: process_packet_def later_fragment6_def Let_def)
  qed
qed

lemma register_fragments_first:
  assumes "register_fragments m hdr i w = Some w'" "first_fragment_of aai m hdr"
  shows "ipfrags (ct w') aai = Some (f_pcap (table (ct w) ! i))"
  using assms
  by (auto simp: register_fragments_def first_fragment_of_def Let_def add_ipfrag_def and_then_def reads_def
      elim!: bind_SomeE split: if_split_asm)

lemma call_packet_registers:
  assumes "call_packet opts m hdr data datalen meth i w = Some w'" "valid_idx (ct w) i" "first_fragment_of aai m hdr"
  shows "ipfrags (ct w') aai = Some (f_pcap (table (ct w) ! i))"
proof -
  from assms(1) obtain w2 where w2: "register_fragments m hdr i w2 = Some w'"
    unfolding call_packet_def Let_def by (elim bind_SomeE) blast
  have "f_pcap (table (ct w') ! i) = f_pcap (table (ct w) ! i)" using call_packet_effects [OF assms(1,2)] by blast
  then show ?thesis using register_fragments_first [OF w2 assms(3)] register_fragments_frame [OF w2] by simp
qed

lemma periodic_cleanup_idle: "word_of_int t - last_cleanup w \<le> 15 \<Longrightarrow> periodic_cleanup t w = w"
  by (simp add: periodic_cleanup_def not_less)

lemma later_fragments_loop:
  assumes "list_all (\<lambda>(h, m). later_fragment_of opts aai True m \<and> word_of_int (tv_sec h) - last_cleanup w \<le> 15) frags"
    and "ipfrags (ct w) aai = Some (Some f)"
  shows "capture_loop opts env (map (case_prod Packet) frags @ ds) w =
    capture_loop opts env ds (emit (concat (replicate (length frags) (dump_packet opts f))) w)"
  using assms
proof (induction frags arbitrary: w)
  case Nil
  then show ?case by (simp add: emit_def)
next
  case (Cons d frags)
  obtain h m where d: "d = (h, m)" by (rule prod.exhaust)
  let ?w = "emit (dump_packet opts f) w"
  have idle: "periodic_cleanup (tv_sec h) w = w" using Cons.prems(1) d by (simp add: periodic_cleanup_idle)
  have "process_packet opts env h m w = Some ?w"
    using later_fragment_step [of opts aai True m h w f env] Cons.prems d idle by simp
  moreover have "last_cleanup ?w = last_cleanup w" "ipfrags (ct ?w) aai = Some (Some f)"
    "emit fx ?w = emit (dump_packet opts f @ fx) w" for fx
    using Cons.prems(2) by (simp_all add: emit_def)
  ultimately show ?case using Cons.IH [of ?w] Cons.prems(1) d by simp
qed


text \<open>A BYE to the call of \<open>rtp_world\<close>, in three fragments; and that world with the opening in its log.\<close>

definition fragment4 :: "byte list \<Rightarrow> byte list \<Rightarrow> mem" where
  "fragment4 frag_off body = [0x45, 0, 0, 0, 0, 7] @ frag_off @ [64, 17, 0, 0, 10, 0, 0, 1, 10, 0, 0, 2] @ body"

definition first_bye :: mem where
  "first_bye = fragment4 [0x20, 0] ([0x13, 0xc4, 0x13, 0xc4, 0, 0, 0, 0] @ str ''BYE b'' @ [LF] @ str ''i: AAAAAAAA'' @ [LF, 0])"

lemma first_bye_run:
  "case call_packet test_opts first_bye 0 28 18 (str ''BYE'') 0 rtp_world of None \<Rightarrow> False | Some w \<Rightarrow> last_cleanup w = 0"
  by code_simp


text \<open>
  C28: clean-up does not know the fragment map. When a call expires while a datagram of it is still
  registered, the next fragment of the datagram first lets the clean-up close the call's file and
  is then written to the closed dumper.
\<close>

theorem fragment_after_close:
  assumes "files_ok w" "e \<in> set (used_calls (ct w))" "f_pcap e = Some f"
    and "ipfrags (ct w) aai = Some (Some f)" "later_fragment_of opts aai mf m"
    and "expired (ct w) (tv_sec h) e" "word_of_int (tv_sec h) - last_cleanup w > 15"
  shows "\<exists>w'. process_packet opts env h m w = Some w' \<and> run_effects (log w') {} = None"
proof -
  obtain c fx where c: "do_cleanup (ct w) (tv_sec h) = (c, fx)" by (rule prod.exhaust)
  let ?w = "periodic_cleanup (tv_sec h) w"
  have w: "?w = emit fx (w\<lparr>ct := c, last_cleanup := word_of_int (tv_sec h)\<rparr>)"
    using assms(7) c by (simp add: periodic_cleanup_def)
  have ok: "files_ok ?w" by (rule periodic_cleanup_files [OF assms(1)])
  have table: "table c = map (\<lambda>e. if expired (ct w) (tv_sec h) e then zero_element else e) (table (ct w))"
    using do_cleanup_table [of "ct w" "tv_sec h"] c by simp
  have "distinct (files_of (table (ct w)))" using assms(1) by (simp add: files_ok_def open_files_def)
  from files_of_cleanup [OF this] have closed: "f \<notin> set (open_files (ct ?w))"
    using assms(2,3,6) by (auto simp: w open_files_def table used_calls_def)
  have "ipfrags (ct ?w) aai = Some (Some f)"
    using assms(4) w do_cleanup_frame(1) [of "ct w" "tv_sec h"] c by simp
  then obtain w' where w': "process_packet opts env h m w = Some w'" "\<exists>fx. log w' = log ?w @ Dump f # fx"
    using later_fragment_step [OF assms(5), of h w f env] by (auto simp: Let_def dump_packet_def split: if_split_asm)
  then show ?thesis using ok closed by (auto simp: files_ok_def run_effects_append)
qed

definition expired_world :: "unit world" where
  "expired_world = rtp_world\<lparr>ct := add_ipfrag rtp_table (Addr_addr_id 0x0100000a 0x0200000a 0x0700) (Some 7),
     opened := 8, log := [Dump_open [] (Some 7)]\<rparr>"

theorem fragment_after_close_witness:
  "\<exists>w'. process_packet test_opts test_env (hdr_of first_bye 5000) (fragment4 [0, 4] [3]) expired_world = Some w' \<and>
    run_effects (log w') {} = None"
proof (rule fragment_after_close)
  show "files_ok expired_world" by code_simp
  show "table (ct expired_world) ! 0 \<in> set (used_calls (ct expired_world))" by code_simp
  show "f_pcap (table (ct expired_world) ! 0) = Some 7" by code_simp
  show "ipfrags (ct expired_world) (Addr_addr_id 0x0100000a 0x0200000a 0x0700) = Some (Some 7)" by code_simp
  show "later_fragment_of test_opts (Addr_addr_id 0x0100000a 0x0200000a 0x0700) False (fragment4 [0, 4] [3])" by code_simp
  show "expired (ct expired_world) (tv_sec (hdr_of first_bye 5000)) (table (ct expired_world) ! 0)" by code_simp
  show "word_of_int (tv_sec (hdr_of first_bye 5000)) - last_cleanup expired_world > 15" by code_simp
qed

end
