(* ===== verification/CaptureTimes.thy ===== *)
theory CaptureTimes
  imports CaptureFragments
begin

text \<open>
  Capture time: how the packet loop sets the times of the calls and the clock of the clean-up, and what
  follows for the time-outs, for calls without RTP, for the fragments of a short capture and for the
  clean-up of the signal handlers.
\<close>

section \<open>The clock of the clean-up\<close>

text \<open>Only the periodic clean-up sets \<open>last_cleanup\<close>.\<close>

lemma clock_simps [simp]:
  "last_cleanup (emit fx w) = last_cleanup w" "last_cleanup (with_element i f w) = last_cleanup w"
  "last_cleanup (dump_sip opts bye i w) = last_cleanup w"
  by (simp_all add: emit_def with_element_def dump_sip_def split: option.split)

lemma clock_stages:
  "later_fragment4 opts m hdr w = Some w' \<Longrightarrow> last_cleanup w' = last_cleanup w"
  "later_fragment6 opts m hdr w = Some w' \<Longrightarrow> last_cleanup w' = last_cleanup w"
  "rtp_packet opts h m data i w = Some w' \<Longrightarrow> last_cleanup w' = last_cleanup w"
  "learn_sdp opts m data datalen i w = Some w' \<Longrightarrow> last_cleanup w' = last_cleanup w"
  "register_fragments m hdr i w = Some w' \<Longrightarrow> last_cleanup w' = last_cleanup w"
  by (auto simp: later_fragment4_def later_fragment6_def rtp_packet_def learn_sdp_def register_fragments_def Let_def
      case_prod_beta' elim!: bind_SomeE split: option.split_asm if_split_asm)

lemma clock_call_packet:
  assumes "call_packet opts m hdr data datalen meth i w = Some w'"
  shows "last_cleanup w' = last_cleanup w"
proof -
  from assms obtain w2 b where
    "learn_sdp opts m data datalen i (if meth = str ''BYE'' then with_element i (\<lambda>e. e\<lparr>had_bye := 1\<rparr>) w else w) = Some w2"
    "register_fragments m hdr i (dump_sip opts b i w2) = Some w'"
    unfolding call_packet_def Let_def by (elim bind_SomeE) blast
  then show ?thesis using clock_stages(4,5) by fastforce
qed

lemma clock_new_call:
  assumes "new_call opts env meth from to callid t i w = Some w'"
  shows "last_cleanup w' = last_cleanup w"
proof -
  have "last_cleanup w' = last_cleanup w" if "open_file opts env from to callid t i (w\<lparr>call_skip_cnt := k\<rparr>) = Some w'" for k
    using that by (cases rule: open_file_shape) simp
  then show ?thesis
    using assms by (auto simp: new_call_def Let_def case_prod_beta' split: if_split_asm)
qed

lemma clock_handle_sip:
  assumes "handle_sip opts env h m hdr data datalen meth w = Some w'"
  shows "last_cleanup w' = last_cleanup w"
  using assms
proof (cases rule: handle_sip_cases)
  case (new m' s l from_buf to_buf callid c i fx w2)
  then show ?thesis using clock_new_call [OF new(3)] clock_call_packet [OF new(4)] by simp
qed (auto dest: clock_call_packet)

lemma clock_handle_payload:
  assumes "handle_payload opts env h m hdr w = Some w'"
  shows "last_cleanup w' = last_cleanup w"
  using assms
proof (cases rule: handle_payload_cases)
  case (sip data save a p a' p' port_mask s c c')
  from sip(3) obtain is_sip meth where
    "(if is_sip then handle_sip opts env h m hdr data (payload_length h data) meth (w\<lparr>ct := c'\<rparr>)
      else Some (w\<lparr>ct := c'\<rparr>)) = Some w'"
    unfolding sip_stage_def case_prod_beta' by (elim bind_SomeE) blast
  then show ?thesis by (auto dest: clock_handle_sip split: if_split_asm)
qed (auto dest: clock_stages(3))

lemma clock_process_packet:
  assumes "process_packet opts env h m w = Some w'"
  shows "last_cleanup w' = last_cleanup (periodic_cleanup (tv_sec h) w)"
  using assms by (cases rule: process_packet_cases) (auto dest: clock_stages(1,2) clock_handle_payload)

section \<open>The times of the calls\<close>

text \<open>
  A step at time \<open>now\<close> gives a new call that time, sets the last time of a call to it when RTP is looked
  for, or leaves the times of the calls as they are.
\<close>

definition times_from :: "bool \<Rightarrow> int \<Rightarrow> calltable \<Rightarrow> calltable_element \<Rightarrow> bool" where
  "times_from rtp now c e' \<longleftrightarrow> first_packet_time e' = now \<and> last_packet_time e' = now \<or>
     (\<exists>e\<in>set (used_calls c). first_packet_time e' = first_packet_time e \<and>
       (last_packet_time e' = last_packet_time e \<or> rtp \<and> last_packet_time e' = now))"

lemma times_from_self: "e \<in> set (used_calls c) \<Longrightarrow> times_from rtp now c e"
  by (auto simp: times_from_def)

lemma used_after_update: "x \<in> set (used_calls (c\<lparr>table := (table c)[i := e]\<rparr>)) \<Longrightarrow> x = e \<or> x \<in> set (used_calls c)"
  by (auto simp: used_calls_def dest: set_update_subset_insert [THEN subsetD])

lemma nth_used: "i < length (table c) \<Longrightarrow> is_used (table c ! i) \<noteq> 0 \<Longrightarrow> table c ! i \<in> set (used_calls c)"
  by (simp add: used_calls_def)

lemma times_from_update:
  assumes "x \<in> set (used_calls (c\<lparr>table := (table c)[i := e]\<rparr>))" "i < length (table c)" "is_used (table c ! i) \<noteq> 0"
    and "first_packet_time e = first_packet_time (table c ! i)"
    and "last_packet_time e = last_packet_time (table c ! i) \<or> rtp \<and> last_packet_time e = now"
  shows "times_from rtp now c x"
  using used_after_update [OF assms(1)] times_from_self assms(4,5) nth_used [OF assms(2,3)]
  unfolding times_from_def by metis

lemma add_ip_port_times:
  "first_packet_time (snd (add_ip_port e a p)) = first_packet_time e" "last_packet_time (snd (add_ip_port e a p)) = last_packet_time e"
  by (simp_all add: add_ip_port_def)

lemma used_other_fields [simp]:
  "used_calls (add_ipfrag c a f) = used_calls c" "used_calls (delete_ipfrag c a) = used_calls c"
  "used_calls (fst (get_ipfrag c a)) = used_calls c"
  by (simp_all add: used_calls_def add_ipfrag_def delete_ipfrag_def get_ipfrag_def split: option.split)

lemma ct_step_times:
  "ct_step rtp now c c' \<Longrightarrow> ct_inv c \<Longrightarrow> x \<in> set (used_calls c') \<Longrightarrow> times_from rtp now c x"
proof (induction rule: ct_step.induct)
  case (Add ct cid n "from" to ct' idx fx)
  from Add.prems(1) Add.hyps(2) show ?case
  proof (cases rule: calltable_add_cases)
    case (1 tab e)
    have "x = e \<or> x \<in> set (used_calls ct)"
      using 1(1,5) Add.prems(2) by (auto simp: used_calls_def dest!: set_update_subset_insert [THEN subsetD])
    then show ?thesis using 1(19,20) times_from_self by (auto simp: times_from_def)
  qed
next
  case (Learn i ct a p)
  then show ?case by (intro times_from_update [OF Learn.prems(2) Learn.hyps]) (simp_all add: add_ip_port_times)
next
  case (Mark i ct b t r)
  then show ?case by (intro times_from_update [OF Mark.prems(2) Mark.hyps(1,2)]) simp_all
next
  case (Count i ct k)
  then show ?case by (intro times_from_update [OF Count.prems(2) Count.hyps(2,3)]) (simp_all add: Count.hyps(1))
next
  case (Open i ct name f)
  then show ?case by (intro times_from_update [OF Open.prems(2) Open.hyps(1,2)]) simp_all
next
  case (Find ct a p s)
  obtain c' hit where f: "find_ip_port_ssrc ct a p s = (c', hit)" by (rule prod.exhaust)
  show ?case
  proof (cases hit)
    case None
    then have "c' = ct" using f by (auto simp: find_ip_port_ssrc_def Let_def split: option.split_asm)
    then show ?thesis using Find.prems(2) f times_from_self by simp
  next
    case (Some ir)
    obtain i r where "hit = Some (i, r)" using Some by (cases ir) simp
    from find_ip_port_ssrc_update [OF Find.prems(1) f [unfolded this]] have
      u: "i < length (table ct)" "is_used (table ct ! i) \<noteq> 0"
        "c' = ct\<lparr>table := (table ct)[i := (table ct ! i)\<lparr>ssrc := (ssrc (table ct ! i))[r := s]\<rparr>]\<rparr>"
      by auto
    then have "x \<in> set (used_calls (ct\<lparr>table := (table ct)[i := (table ct ! i)\<lparr>ssrc := (ssrc (table ct ! i))[r := s]\<rparr>]\<rparr>))"
      using Find.prems(2) f by simp
    from times_from_update [OF this u(1,2)] show ?thesis by simp
  qed
next
  case (Clean ct)
  then show ?case by (auto simp: cleanup_used times_from_self)
qed (simp_all add: times_from_self)

lemma ct_step_timeout: "ct_step rtp now c c' \<Longrightarrow> opt_absolute_timeout c' = opt_absolute_timeout c"
  by (induction rule: ct_step.induct)
    (auto simp: calltable_add_def find_ip_port_ssrc_def do_cleanup_def get_ipfrag_def add_ipfrag_def delete_ipfrag_def Let_def
      elim!: bind_SomeE split: option.split)

lemma steps_times:
  "(ct_step rtp now)\<^sup>*\<^sup>* c c' \<Longrightarrow> ct_inv c \<Longrightarrow>
   opt_absolute_timeout c' = opt_absolute_timeout c \<and> (\<forall>x\<in>set (used_calls c'). times_from rtp now c x)"
proof (induction rule: rtranclp_induct)
  case base
  then show ?case by (simp add: times_from_self)
next
  case (step c1 c2)
  have "ct_inv c1" using steps_inv [OF step.hyps(1) step.prems] .
  then have "\<forall>x\<in>set (used_calls c2). times_from rtp now c1 x" using ct_step_times [OF step.hyps(2)] by blast
  moreover have "times_from rtp now c x" if "times_from rtp now c1 x" for x
    using that step.IH step.prems unfolding times_from_def by metis
  ultimately show ?case using step.IH step.prems ct_step_timeout [OF step.hyps(2)] by simp
qed

section \<open>Time-outs\<close>

text \<open>
  At the time \<open>now\<close> of the last packet: the last clean-up \<open>lc\<close> was at most 15 seconds ago, and every call
  in the table had not expired then, or is newer.
\<close>

definition timely :: "int \<Rightarrow> 'fs world \<Rightarrow> bool" where
  "timely now w \<longleftrightarrow> (\<exists>lc. last_cleanup w = word_of_int lc \<and> 0 \<le> lc \<and> lc \<le> now \<and> now \<le> lc + 15 \<and>
     (\<forall>e\<in>set (used_calls (ct w)). lc - last_packet_time e \<le> 300 \<and>
        lc - first_packet_time e \<le> opt_absolute_timeout (ct w)))"

lemma cleanup_due:
  assumes "0 \<le> lc" "lc \<le> t" "t < 2 ^ 63"
  shows "(15 :: u64) < word_of_int t - word_of_int lc \<longleftrightarrow> lc + 15 < t"
proof -
  have "uint (word_of_int t - word_of_int lc :: u64) = uint (word_of_int (t - lc) :: u64)" by (simp only: of_int_diff)
  also have "\<dots> = (t - lc) mod 2 ^ 64" by (subst uint_word_of_int) simp
  also have "\<dots> = t - lc" using assms by (intro mod_pos_pos_trivial) auto
  finally show ?thesis by (auto simp: word_less_def)
qed

lemma periodic_cleanup_timely:
  assumes "timely now w" "now \<le> t" "t < 2 ^ 63"
  shows "timely t (periodic_cleanup t w)"
proof -
  from assms(1) obtain lc where lc: "last_cleanup w = word_of_int lc" "0 \<le> lc" "lc \<le> now"
    "\<forall>e\<in>set (used_calls (ct w)). lc - last_packet_time e \<le> 300 \<and> lc - first_packet_time e \<le> opt_absolute_timeout (ct w)"
    by (auto simp: timely_def)
  have due: "word_of_int t - last_cleanup w > 15 \<longleftrightarrow> lc + 15 < t" unfolding lc(1) using lc assms by (intro cleanup_due) auto
  show ?thesis
  proof (cases "lc + 15 < t")
    case True
    let ?c = "fst (do_cleanup (ct w) t)"
    have "ct (periodic_cleanup t w) = ?c" "last_cleanup (periodic_cleanup t w) = word_of_int t"
      using True due by (simp_all add: periodic_cleanup_def case_prod_beta' emit_def Let_def)
    moreover have "t - last_packet_time e \<le> 300 \<and> t - first_packet_time e \<le> opt_absolute_timeout ?c"
      if "e \<in> set (used_calls ?c)" for e
    proof -
      have "e \<in> set (used_calls (ct w))" "\<not> expired (ct w) t e" using that by (auto simp: cleanup_used)
      then show ?thesis by (auto simp: expired_def used_calls_def do_cleanup_frame(3))
    qed
    ultimately show ?thesis using lc assms(2) unfolding timely_def by (intro exI [of _ t]) auto
  next
    case False
    then have "periodic_cleanup t w = w" using due by (simp add: periodic_cleanup_def)
    then show ?thesis using lc False assms(2) unfolding timely_def by auto
  qed
qed

lemma process_packet_timely:
  assumes "process_packet opts env h m w = Some w'" "ct_inv (ct w)" "timely now w"
    and "now \<le> tv_sec h" "tv_sec h < 2 ^ 63" "0 \<le> opt_absolute_timeout (ct w)"
  shows "timely (tv_sec h) w' \<and> opt_absolute_timeout (ct w') = opt_absolute_timeout (ct w)"
proof -
  let ?w = "periodic_cleanup (tv_sec h) w" and ?t = "tv_sec h" and ?rtp = "opt_rtpsave opts \<noteq> RTPSAVE_NONE"
  from periodic_cleanup_timely [OF assms(3-5)] obtain lc where lc: "last_cleanup ?w = word_of_int lc" "0 \<le> lc" "lc \<le> ?t" "?t \<le> lc + 15"
    "\<forall>e\<in>set (used_calls (ct ?w)). lc - last_packet_time e \<le> 300 \<and> lc - first_packet_time e \<le> opt_absolute_timeout (ct ?w)"
    by (auto simp: timely_def)
  have limit: "opt_absolute_timeout (ct ?w) = opt_absolute_timeout (ct w)"
    using steps_times [OF periodic_cleanup_steps assms(2)] by blast
  have "ct_inv (ct ?w)" using steps_inv [OF periodic_cleanup_steps assms(2)] .
  from steps_times [OF process_packet_after_cleanup [OF assms(1,2)] this]
  have w': "opt_absolute_timeout (ct w') = opt_absolute_timeout (ct ?w)" "\<forall>x\<in>set (used_calls (ct w')). times_from ?rtp ?t (ct ?w) x"
    by blast+
  have "lc - last_packet_time x \<le> 300 \<and> lc - first_packet_time x \<le> opt_absolute_timeout (ct w')"
    if "x \<in> set (used_calls (ct w'))" for x
  proof -
    have "times_from ?rtp ?t (ct ?w) x" using w'(2) that by blast
    then show ?thesis using lc(3,5) w'(1) limit assms(6) unfolding times_from_def by force
  qed
  then show ?thesis
    using lc(1-4) w'(1) limit clock_process_packet [OF assms(1)] unfolding timely_def by auto
qed

text \<open>The times of the packets that were delivered.\<close>

fun packet_times :: "delivery list \<Rightarrow> int list" where
  "packet_times [] = []"
| "packet_times (Timeout # ds) = packet_times ds"
| "packet_times (Packet h m # ds) = tv_sec h # packet_times ds"

lemma capture_loop_timely:
  "capture_loop opts env ds w = Some w' \<Longrightarrow> ct_inv (ct w) \<Longrightarrow> timely now w \<Longrightarrow> 0 \<le> opt_absolute_timeout (ct w) \<Longrightarrow>
   sorted (now # packet_times ds) \<Longrightarrow> \<forall>t\<in>set (packet_times ds). t < 2 ^ 63 \<Longrightarrow>
   timely (List.last (now # packet_times ds)) w' \<and> opt_absolute_timeout (ct w') = opt_absolute_timeout (ct w)"
proof (induction opts env ds w arbitrary: now rule: capture_loop.induct)
  case (3 opts env h m ds w)
  from "3.prems"(1) obtain w1 where w1: "process_packet opts env h m w = Some w1" "capture_loop opts env ds w1 = Some w'"
    by (auto elim!: bind_SomeE)
  have inv: "ct_inv (ct w1)" using steps_inv [OF process_packet_steps [OF w1(1) "3.prems"(2)] "3.prems"(2)] .
  have "timely (tv_sec h) w1 \<and> opt_absolute_timeout (ct w1) = opt_absolute_timeout (ct w)"
    using "3.prems" by (intro process_packet_timely [OF w1(1)]) auto
  with "3.IH" [OF w1 inv, of "tv_sec h"] "3.prems" show ?case by (cases "packet_times ds") auto
qed auto

text \<open>
  C8: time-outs are enforced, with 15 seconds of delay. In a capture whose packets come in the order of
  their times, after each packet the table holds no call that has been idle for more than 315
  seconds, and none that has lasted longer than the limit of \<open>-T\<close> by more than 15 seconds. So a call
  whose peers fall silent, or never end it, does have its file closed as the capture goes on: every
  dumper still open (of traffic without later fragments) is that of a call within these bounds.
\<close>

theorem timeouts_enforced:
  assumes "capture_loop opts env ds (initial_world limit t38 fs0) = Some w" "0 \<le> limit"
    and "sorted (packet_times ds)" "\<forall>t\<in>set (packet_times ds). 0 \<le> t \<and> t < 2 ^ 63" "packet_times ds \<noteq> []"
  shows "(\<forall>e\<in>set (used_calls (ct w)). List.last (packet_times ds) - last_packet_time e \<le> 315 \<and>
      List.last (packet_times ds) - first_packet_time e \<le> limit + 15) \<and>
    (list_all (no_later_fragment opts) ds \<longrightarrow> (\<exists>F. run_effects (log w) {} = Some F \<and>
      (\<forall>f\<in>F. \<exists>e\<in>set (used_calls (ct w)). f_pcap e = Some f \<and>
        List.last (packet_times ds) - last_packet_time e \<le> 315 \<and> List.last (packet_times ds) - first_packet_time e \<le> limit + 15)))"
proof -
  have start: "timely 0 (initial_world limit t38 fs0)" "opt_absolute_timeout (ct (initial_world limit t38 fs0)) = limit"
    by (auto simp: timely_def initial_world_def new_calltable_def used_calls_def intro!: exI [of _ 0])
  have order: "sorted (0 # packet_times ds)" using assms(3,4) by auto
  from capture_loop_timely [OF assms(1) initial_files(2) start(1) _ order] assms(2,4) start(2)
  have "timely (List.last (0 # packet_times ds)) w" "opt_absolute_timeout (ct w) = limit" by auto
  then have times: "\<forall>e\<in>set (used_calls (ct w)). List.last (packet_times ds) - last_packet_time e \<le> 315 \<and>
      List.last (packet_times ds) - first_packet_time e \<le> limit + 15"
    using assms(5) by (fastforce simp: timely_def)
  have "run_effects (log w) {} = Some {f. \<exists>e\<in>set (used_calls (ct w)). f_pcap e = Some f}"
    if "list_all (no_later_fragment opts) ds"
  proof -
    have "files_ok w" "ct_inv (ct w)" using capture_loop_files [OF assms(1) that initial_files(2,1)] by blast+
    then show ?thesis using open_files_used by (simp add: files_ok_def)
  qed
  with times show ?thesis by auto
qed

theorem timeouts_enforced_witness:
  "\<exists>w. capture_loop test_opts test_env [small_delivery] (initial_world 1000 False ()) = Some w \<and>
    length (used_calls (ct w)) = 1 \<and> (\<forall>e\<in>set (used_calls (ct w)). 1000 - last_packet_time e \<le> 315)"
proof -
  have times: "packet_times [small_delivery] = [1000]" by code_simp
  obtain w where w: "capture_loop test_opts test_env [small_delivery] (initial_world 1000 False ()) = Some w"
    "length (used_calls (ct w)) = 1"
    using small_run_Some by blast
  from timeouts_enforced [OF w(1), unfolded times] w show ?thesis by auto
qed

definition untouched :: "calltable \<Rightarrow> bool" where
  "untouched c \<longleftrightarrow> (\<forall>e\<in>set (used_calls c). last_packet_time e = first_packet_time e)"

lemma capture_loop_untouched:
  "capture_loop opts env ds w = Some w' \<Longrightarrow> ct_inv (ct w) \<Longrightarrow> untouched (ct w) \<Longrightarrow>
   opt_rtpsave opts = RTPSAVE_NONE \<Longrightarrow> untouched (ct w')"
proof (induction opts env ds w rule: capture_loop.induct)
  case (3 opts env h m ds w)
  from "3.prems"(1) obtain w1 where w1: "process_packet opts env h m w = Some w1" "capture_loop opts env ds w1 = Some w'"
    by (auto elim!: bind_SomeE)
  have steps: "(ct_step False (tv_sec h))\<^sup>*\<^sup>* (ct w) (ct w1)"
    using process_packet_steps [OF w1(1) "3.prems"(2)] "3.prems"(4) by simp
  have "untouched (ct w1)"
    using steps_times [OF steps "3.prems"(2)] "3.prems"(3) unfolding untouched_def times_from_def by metis
  then show ?case using "3.IH" [OF w1] steps_inv [OF steps "3.prems"(2)] "3.prems"(4) by blast
qed simp_all

text \<open>
  C20: only RTP keeps a call alive. SIP packets of a call do not set the time of its last packet, so with
  \<open>-R none\<close> every call in the table still has the time of its first packet as its last one, and
  none stays there longer than 315 seconds: the file of each longer call is closed while the call
  goes on.
\<close>

theorem rtp_none_cuts_calls:
  assumes "capture_loop opts env ds (initial_world limit t38 fs0) = Some w" "0 \<le> limit" "opt_rtpsave opts = RTPSAVE_NONE"
    and "sorted (packet_times ds)" "\<forall>t\<in>set (packet_times ds). 0 \<le> t \<and> t < 2 ^ 63" "packet_times ds \<noteq> []"
  shows "\<forall>e\<in>set (used_calls (ct w)). last_packet_time e = first_packet_time e \<and>
    List.last (packet_times ds) - first_packet_time e \<le> 315"
proof -
  have "timely 0 (initial_world limit t38 fs0)" "opt_absolute_timeout (ct (initial_world limit t38 fs0)) = limit"
    by (auto simp: timely_def initial_world_def new_calltable_def used_calls_def intro!: exI [of _ 0])
  with capture_loop_timely [OF assms(1) initial_files(2) this(1)] assms(2,4,5)
  have "timely (List.last (0 # packet_times ds)) w" by auto
  then have idle: "\<forall>e\<in>set (used_calls (ct w)). List.last (packet_times ds) - last_packet_time e \<le> 315"
    using assms(6) by (fastforce simp: timely_def)
  have "untouched (ct (initial_world limit t38 fs0))"
    by (simp add: untouched_def initial_world_def new_calltable_def used_calls_def)
  with capture_loop_untouched [OF assms(1) initial_files(2) _ assms(3)] have "untouched (ct w)" by blast
  with idle show ?thesis by (simp add: untouched_def)
qed

text \<open>The INVITE of \<open>small_delivery\<close> is recorded in that mode, too.\<close>

lemma small_run_rtp_none:
  "case capture_loop (test_opts\<lparr>opt_rtpsave := RTPSAVE_NONE\<rparr>) test_env [small_delivery] (initial_world 1000 False ()) of
     None \<Rightarrow> False | Some w \<Rightarrow> length (used_calls (ct w)) = 1"
  by code_simp

theorem rtp_none_cuts_calls_witness:
  "\<exists>w. capture_loop (test_opts\<lparr>opt_rtpsave := RTPSAVE_NONE\<rparr>) test_env [small_delivery] (initial_world 1000 False ()) = Some w \<and>
    length (used_calls (ct w)) = 1 \<and> (\<forall>e\<in>set (used_calls (ct w)). last_packet_time e = first_packet_time e)"
proof -
  have times: "packet_times [small_delivery] = [1000]" by code_simp
  obtain w where w: "capture_loop (test_opts\<lparr>opt_rtpsave := RTPSAVE_NONE\<rparr>) test_env [small_delivery] (initial_world 1000 False ()) = Some w"
    "length (used_calls (ct w)) = 1"
    using small_run_rtp_none by (auto split: option.split_asm)
  from rtp_none_cuts_calls [OF w(1), unfolded times] w show ?thesis by auto
qed

section \<open>Fragments of short captures\<close>

text \<open>
  The fragment map holds dumpers of calls in the table only. That is kept while no call expires; the
  calls of a capture that takes at most 300 seconds do not.
\<close>

definition frags_open :: "calltable \<Rightarrow> bool" where
  "frags_open c \<longleftrightarrow> (\<forall>aai f. ipfrags c aai = Some (Some f) \<longrightarrow> f \<in> set (open_files c))"

definition young :: "int \<Rightarrow> calltable \<Rightarrow> bool" where
  "young t0 c \<longleftrightarrow> 300 \<le> opt_absolute_timeout c \<and> frags_open c \<and>
     (\<forall>e\<in>set (used_calls c). t0 \<le> first_packet_time e \<and> t0 \<le> last_packet_time e)"

lemma open_files_update:
  assumes "i < length (table c)" "f_pcap (table c ! i) = None \<or> f_pcap e = f_pcap (table c ! i)"
  shows "set (open_files c) \<subseteq> set (open_files (c\<lparr>table := (table c)[i := e]\<rparr>))"
proof
  fix f assume "f \<in> set (open_files c)"
  then obtain x where "x \<in> set (table c)" "f_pcap x = Some f" by (auto simp: open_files_def in_files_of)
  then obtain j where "j < length (table c)" "f_pcap (table c ! j) = Some f" by (auto simp: in_set_conv_nth)
  then have "j < length ((table c)[i := e])" "f_pcap ((table c)[i := e] ! j) = Some f"
    using assms by (auto simp: nth_list_update)
  from nth_mem [OF this(1)] this(2)
  have "\<exists>x\<in>set ((table c)[i := e]). f_pcap x = Some f" by blast
  then show "f \<in> set (open_files (c\<lparr>table := (table c)[i := e]\<rparr>))"
    unfolding open_files_def in_files_of by simp
qed

lemma frags_open_mono: "frags_open c \<Longrightarrow> ipfrags c' = ipfrags c \<Longrightarrow> set (open_files c) \<subseteq> set (open_files c') \<Longrightarrow> frags_open c'"
  unfolding frags_open_def by auto

lemma ct_step_frags:
  "ct_step rtp now c c' \<Longrightarrow> ct_inv c \<Longrightarrow> frags_open c \<Longrightarrow> \<forall>e\<in>set (used_calls c). \<not> expired c now e \<Longrightarrow> frags_open c'"
proof (induction rule: ct_step.induct)
  case (Add ct cid n "from" to ct' idx fx)
  from Add.prems(1) Add.hyps(2) show ?case
  proof (cases rule: calltable_add_cases)
    case (1 tab e)
    have zero: "f_pcap zero_element = None" by (simp add: zero_element_def)
    then have "set (open_files ct) \<subseteq> set (files_of tab)" using 1(1) by (auto simp: open_files_def files_of_append)
    also have "\<dots> \<subseteq> set (files_of (tab[idx := e]))"
      using open_files_update [of idx "ct\<lparr>table := tab\<rparr>" e] 1(2,3) zero by (simp add: open_files_def)
    finally show ?thesis
      using 1(5) by (intro frags_open_mono [OF Add.prems(2)]) (simp_all add: open_files_def arg_cong [OF 1(6), of ipfrags])
  qed
next
  case (Learn i ct a p)
  then show ?case
    by (intro frags_open_mono [OF Learn.prems(2)] open_files_update) (auto simp: add_ip_port_def)
next
  case (Mark i ct b t r)
  then show ?case by (intro frags_open_mono [OF Mark.prems(2)] open_files_update) auto
next
  case (Count i ct k)
  then show ?case by (intro frags_open_mono [OF Count.prems(2)] open_files_update) auto
next
  case (Open i ct name f)
  then show ?case by (intro frags_open_mono [OF Open.prems(2)] open_files_update) auto
next
  case (Find ct a p s)
  obtain c' hit where f: "find_ip_port_ssrc ct a p s = (c', hit)" by (rule prod.exhaust)
  show ?case
  proof (cases hit)
    case None
    then have "c' = ct" using f by (auto simp: find_ip_port_ssrc_def Let_def split: option.split_asm)
    then show ?thesis using Find.prems(2) f by simp
  next
    case (Some ir)
    obtain i r where "hit = Some (i, r)" using Some by (cases ir) simp
    from find_ip_port_ssrc_update [OF Find.prems(1) f [unfolded this]] show ?thesis
      using f by (intro frags_open_mono [OF Find.prems(2)]) (auto intro: subsetD [OF open_files_update])
  qed
next
  case (Clean ct)
  have "\<not> expired ct now e" if "e \<in> set (table ct)" for e
    using that Clean.prems(3) by (cases "is_used e = 0") (auto simp: expired_def used_calls_def)
  then have "table (fst (do_cleanup ct now)) = table ct" by (auto simp: do_cleanup_table map_idI)
  then show ?case by (intro frags_open_mono [OF Clean.prems(2)]) (simp_all add: open_files_def do_cleanup_frame)
next
  case (Frag_get ct aai)
  then show ?case by (auto simp: frags_open_def get_ipfrag_def open_files_def split: option.split)
next
  case (Frag_add i ct aai)
  then show ?case by (auto simp: frags_open_def add_ipfrag_def open_files_def in_files_of)
next
  case (Frag_del ct aai)
  then show ?case by (auto simp: frags_open_def delete_ipfrag_def open_files_def)
qed

lemma steps_young:
  "(ct_step rtp now)\<^sup>*\<^sup>* c c' \<Longrightarrow> ct_inv c \<Longrightarrow> young t0 c \<Longrightarrow> t0 \<le> now \<Longrightarrow> now \<le> t0 + 300 \<Longrightarrow> young t0 c'"
proof (induction rule: rtranclp_induct)
  case (step c1 c2)
  have inv: "ct_inv c1" using steps_inv [OF step.hyps(1) step.prems(1)] .
  have y: "young t0 c1" using step.IH step.prems by blast
  then have "\<forall>e\<in>set (used_calls c1). \<not> expired c1 now e"
    using step.prems(4) by (fastforce simp: young_def expired_def)
  then have "frags_open c2" using ct_step_frags [OF step.hyps(2) inv] y by (simp add: young_def)
  moreover have "t0 \<le> first_packet_time x \<and> t0 \<le> last_packet_time x" if "x \<in> set (used_calls c2)" for x
    using ct_step_times [OF step.hyps(2) inv that] y step.prems(3) by (force simp: times_from_def young_def)
  ultimately show ?case using y ct_step_timeout [OF step.hyps(2)] by (simp add: young_def)
qed

lemma initial_young: "young t0 (ct (initial_world limit t38 fs0)) \<longleftrightarrow> 300 \<le> opt_absolute_timeout (ct (initial_world limit t38 fs0))"
  by (simp add: young_def frags_open_def initial_world_def new_calltable_def used_calls_def)

lemma later_fragment_files:
  assumes "later_fragment4 opts m hdr w = Some w' \<or> later_fragment6 opts m hdr w = Some w'" "files_ok w" "frags_open (ct w)"
  shows "files_ok w'"
proof -
  have frame: "open_files (c\<lparr>ipfrags := x\<rparr>) = open_files c" for c x by (simp add: open_files_def)
  have dump: "files_ok (emit (dump_packet opts f) w1)" if "files_ok w1" "f \<in> set (open_files (ct w1))" for f and w1 :: "'a world"
    using files_ok_emit [OF that(1)] dump_packet_ok [OF that(2)] by blast
  have get: "files_ok (w\<lparr>ct := fst (get_ipfrag (ct w) aai)\<rparr>)" for aai
    by (intro files_ok_cong [OF assms(2)]) (simp_all add: get_ipfrag_def frame split: option.split)
  have known: "f \<in> set (open_files (ct w))" if "snd (get_ipfrag (ct w) aai) = Some f" for aai f
    using that assms(3) by (auto simp: get_ipfrag_def frags_open_def split: option.split_asm)
  have forget: "files_ok (w1\<lparr>ct := delete_ipfrag (ct w1) aai\<rparr>)" if "files_ok w1" for aai and w1 :: "'a world"
    by (intro files_ok_cong [OF that]) (simp_all add: delete_ipfrag_def frame)
  have step: "files_ok (emit (dump_packet opts f) (w\<lparr>ct := fst (get_ipfrag (ct w) aai)\<rparr>))"
    if "snd (get_ipfrag (ct w) aai) = Some f" for aai f
    using dump [OF get] known [OF that] by (simp add: get_ipfrag_def frame split: option.split)
  show ?thesis
    using assms(1,2) get step forget [OF step]
    by (auto simp: later_fragment4_def later_fragment6_def Let_def case_prod_beta'
        elim!: bind_SomeE split: option.split_asm if_split_asm)
qed

lemma capture_loop_young:
  "capture_loop opts env ds w = Some w' \<Longrightarrow> ct_inv (ct w) \<Longrightarrow> young t0 (ct w) \<Longrightarrow> files_ok w \<Longrightarrow>
   \<forall>t\<in>set (packet_times ds). t0 \<le> t \<and> t \<le> t0 + 300 \<Longrightarrow> files_ok w' \<and> ct_inv (ct w')"
proof (induction opts env ds w rule: capture_loop.induct)
  case (3 opts env h m ds w)
  let ?w = "periodic_cleanup (tv_sec h) w"
  from "3.prems"(1) obtain w1 where w1: "process_packet opts env h m w = Some w1" "capture_loop opts env ds w1 = Some w'"
    by (auto elim!: bind_SomeE)
  note steps = process_packet_steps [OF w1(1) "3.prems"(2)]
  have t: "t0 \<le> tv_sec h" "tv_sec h \<le> t0 + 300" using "3.prems"(5) by simp_all
  have clean: "young t0 (ct ?w)" using steps_young [OF periodic_cleanup_steps "3.prems"(2,3) t] .
  then have frags: "frags_open (ct ?w)" by (simp add: young_def)
  have ok: "files_ok ?w" "ct_inv (ct ?w)"
    using periodic_cleanup_files [OF "3.prems"(4)] steps_inv [OF periodic_cleanup_steps "3.prems"(2)] by blast+
  from w1(1) have "files_ok w1"
  proof (cases rule: process_packet_cases)
    case skip
    then show ?thesis using ok by simp
  next
    case (frag4 hdr)
    then show ?thesis using later_fragment_files ok(1) frags by blast
  next
    case (frag6 hdr)
    then show ?thesis using later_fragment_files ok(1) frags by blast
  next
    case (payload hdr)
    then show ?thesis using handle_payload_files ok by blast
  qed
  then show ?case
    using "3.IH" [OF w1] steps_inv [OF steps "3.prems"(2)] steps_young [OF steps "3.prems"(2,3) t] "3.prems"(5) by simp
qed simp_all


text \<open>An INVITE in two fragments.\<close>

definition invite_start :: mem where
  "invite_start = fragment4 [0x20, 0] ([0x13, 0xc4, 0x13, 0xc4, 0, 0, 0, 0] @ str ''INVITE b'' @ [LF] @ str ''i: a'' @ [LF])"

definition fragmented_delivery :: "delivery list" where
  "fragmented_delivery = [Packet (hdr_of invite_start 1000) (invite_start @ replicate 4 0),
     Packet (hdr_of (fragment4 [0, 4] [3]) 1000) (fragment4 [0, 4] [3])]"

lemma fragmented_run:
  "case capture_loop test_opts test_env fragmented_delivery (initial_world 1000 False ()) of
     None \<Rightarrow> False
   | Some w \<Rightarrow> length (used_calls (ct w)) = 1 \<and> list_all (\<lambda>e. f_pcap e = Some 0) (used_calls (ct w)) \<and>
       drop (length (log w) - 2) (log w) = [Dump 0, Dump 0]"
  by code_simp


section \<open>Signals\<close>

text \<open>Every time in the table is that of a packet that was delivered.\<close>

lemma capture_loop_packet_times:
  "capture_loop opts env ds w = Some w' \<Longrightarrow> ct_inv (ct w) \<Longrightarrow> set (packet_times ds) \<subseteq> T \<Longrightarrow>
   \<forall>e\<in>set (used_calls (ct w)). first_packet_time e \<in> T \<and> last_packet_time e \<in> T \<Longrightarrow>
   opt_absolute_timeout (ct w') = opt_absolute_timeout (ct w) \<and> ct_inv (ct w') \<and>
   (\<forall>e\<in>set (used_calls (ct w')). first_packet_time e \<in> T \<and> last_packet_time e \<in> T)"
proof (induction opts env ds w rule: capture_loop.induct)
  case (3 opts env h m ds w)
  from "3.prems"(1) obtain w1 where w1: "process_packet opts env h m w = Some w1" "capture_loop opts env ds w1 = Some w'"
    by (auto elim!: bind_SomeE)
  note steps = process_packet_steps [OF w1(1) "3.prems"(2)]
  have "\<forall>e\<in>set (used_calls (ct w1)). first_packet_time e \<in> T \<and> last_packet_time e \<in> T"
    using steps_times [OF steps "3.prems"(2)] "3.prems"(3,4) unfolding times_from_def by auto
  then show ?case using "3.IH" [OF w1] steps_inv [OF steps "3.prems"(2)] steps_times [OF steps "3.prems"(2)] "3.prems"(3)
    by auto
qed auto

text \<open>
  C11: SIGINT and SIGTERM end a capture without ending its calls: whenever the signal comes between two
  packets, the clean-up of the handler does nothing, so before \<open>exit\<close> no file is flushed, closed or
  unlinked, and no close trigger fires, while the files of all calls in the table are open.
\<close>

theorem signal_ends_no_call:
  assumes "capture_loop opts env ds (initial_world limit t38 fs0) = Some w" "0 \<le> limit"
    and "\<forall>t\<in>set (packet_times ds). 0 \<le> t"
  shows "signal_handler w = w \<and>
    (list_all (no_later_fragment opts) ds \<longrightarrow>
       run_effects (log (signal_handler w)) {} = Some {f. \<exists>e\<in>set (used_calls (ct w)). f_pcap e = Some f})"
proof -
  have "\<forall>e\<in>set (used_calls (ct (initial_world limit t38 fs0))). first_packet_time e \<in> {0..} \<and> last_packet_time e \<in> {0..}"
    by (simp add: initial_world_def new_calltable_def used_calls_def)
  from capture_loop_packet_times [OF assms(1) initial_files(2) _ this] assms(3) have
    run: "opt_absolute_timeout (ct w) = limit" "ct_inv (ct w)"
      "\<forall>e\<in>set (used_calls (ct w)). 0 \<le> first_packet_time e \<and> 0 \<le> last_packet_time e"
    by (auto simp: initial_world_def)
  have "0 \<le> first_packet_time e \<and> 0 \<le> last_packet_time e" if "e \<in> set (table (ct w))" for e
  proof (cases "is_used e = 0")
    case True
    then have "e = zero_element" using run(2) that by (auto simp: ct_inv_def list_all_iff element_ok_def)
    then show ?thesis by (simp add: zero_element_def)
  qed (use run(3) that in \<open>simp add: used_calls_def\<close>)
  then have "do_cleanup (ct w) 0 = (ct w, [])" using run(1) assms(2) by (intro do_cleanup_at_0) auto
  then have same: "signal_handler w = w" by (simp add: signal_handler_def emit_def)
  have "run_effects (log w) {} = Some {f. \<exists>e\<in>set (used_calls (ct w)). f_pcap e = Some f}"
    if "list_all (no_later_fragment opts) ds"
  proof -
    have "files_ok w" using capture_loop_files [OF assms(1) that initial_files(2,1)] by blast
    then show ?thesis using open_files_used [OF run(2)] by (simp add: files_ok_def)
  qed
  then show ?thesis unfolding same by blast
qed

theorem signal_ends_no_call_witness:
  "\<exists>w. capture_loop test_opts test_env [small_delivery] (initial_world 1000 False ()) = Some w \<and>
    signal_handler w = w \<and> length (used_calls (ct w)) = 1 \<and> run_effects (log (signal_handler w)) {} \<noteq> Some {}"
proof -
  have times: "packet_times [small_delivery] = [1000]" by code_simp
  obtain w where w: "capture_loop test_opts test_env [small_delivery] (initial_world 1000 False ()) = Some w"
    "length (used_calls (ct w)) = 1" "\<forall>e\<in>set (used_calls (ct w)). f_pcap e = Some 0"
    using small_run_Some by blast
  have "used_calls (ct w) \<noteq> []" using w(2) by auto
  then have "{f. \<exists>e\<in>set (used_calls (ct w)). f_pcap e = Some f} \<noteq> {}" using w(3) list.set_sel(1) by blast
  then show ?thesis
    using signal_ends_no_call [OF w(1), unfolded times] small_delivery_unfragmented w by auto
qed

end
