(* ===== verification/CaptureSampling.thy ===== *)
theory CaptureSampling
  imports CaptureFiles
begin

text \<open>
  Which calls a run records: the counter of \<open>-l\<close> over a whole capture. The log shows a call that enters
  the table as its open trigger, and the decision to record it as the opening of a file right after.
\<close>

section \<open>The calls of a log\<close>

text \<open>For each call of the log, latest first, whether a file was opened for it.\<close>

fun mark_call :: "effect \<Rightarrow> bool list \<Rightarrow> bool list" where
  "mark_call (Fire Trigger_open fn from to cid t) bs = False # bs"
| "mark_call (Dump_open fn f) (False # bs) = True # bs"
| "mark_call (Dump_open fn f) bs = True # bs"
| "mark_call _ bs = bs"

definition calls_recorded :: "effect list \<Rightarrow> bool list" where
  "calls_recorded fx = rev (fold mark_call fx [])"

text \<open>The effects that count, and with them the counter: what all other steps leave alone.\<close>

fun counts :: "effect \<Rightarrow> bool" where
  "counts (Fire Trigger_open fn from to cid t) = True"
| "counts (Dump_open fn f) = True"
| "counts _ = False"

definition decisions :: "'fs world \<Rightarrow> effect list \<times> int" where
  "decisions w = (filter counts (log w), call_skip_cnt w)"

fun is_dump_open :: "effect \<Rightarrow> bool" where
  "is_dump_open (Dump_open fn f) = True"
| "is_dump_open _ = False"

text \<open>Every file opened is that of one call of the list.\<close>

lemma calls_recorded_opens: "length (filter id (calls_recorded fx)) = length (filter is_dump_open fx)"
proof -
  have mark: "length (filter id (mark_call x bs)) = length (filter id bs) + (if is_dump_open x then 1 else 0)" for x bs
    by (cases "(x, bs)" rule: mark_call.cases) auto
  have "length (filter id (fold mark_call fx bs)) = length (filter id bs) + length (filter is_dump_open fx)" for bs
    by (induction fx arbitrary: bs) (simp_all add: mark)
  from this [of "[]"] show ?thesis by (simp add: calls_recorded_def rev_filter [symmetric])
qed

lemma mark_not_counting: "\<not> counts x \<Longrightarrow> mark_call x bs = bs"
  by (cases "(x, bs)" rule: mark_call.cases) auto

lemma fold_mark_filter: "fold mark_call (filter counts fx) bs = fold mark_call fx bs"
  by (induction fx arbitrary: bs) (simp_all add: mark_not_counting)

lemma decisions_simps [simp]:
  "decisions (w\<lparr>ct := c\<rparr>) = decisions w" "decisions (with_element i g w) = decisions w"
  "decisions (w\<lparr>last_cleanup := k\<rparr>) = decisions w"
  by (simp_all add: decisions_def with_element_def)

lemma decisions_emit [simp]:
  "filter counts fx = [] \<Longrightarrow> decisions (emit fx w) = decisions w"
  by (simp add: decisions_def emit_def)

lemma dump_packet_counts [simp]: "filter counts (dump_packet opts f) = []"
  by (simp add: dump_packet_def)

lemma do_cleanup_counts: "filter counts (snd (do_cleanup c t)) = []"
  by (auto simp: do_cleanup_def cleanup_element_def filter_empty_conv split: option.split_asm if_split_asm)

section \<open>Steps that decide nothing\<close>

lemma decisions_periodic_cleanup: "decisions (periodic_cleanup t w) = decisions w"
  using do_cleanup_counts [of "ct w" t]
  by (auto simp: periodic_cleanup_def decisions_def emit_def split: prod.split)

lemma decisions_dump_sip: "decisions (dump_sip opts bye i w) = decisions w"
  by (auto simp: dump_sip_def split: option.split)

lemma decisions_stages:
  "rtp_packet opts h m data i w = Some w' \<Longrightarrow> decisions w' = decisions w"
  "learn_sdp opts m data datalen i w = Some w' \<Longrightarrow> decisions w' = decisions w"
  "register_fragments m hdr i w = Some w' \<Longrightarrow> decisions w' = decisions w"
  by (auto simp: rtp_packet_def learn_sdp_def register_fragments_def Let_def
      case_prod_beta' elim!: bind_SomeE split: option.split_asm if_split_asm)

lemma decisions_fragments:
  "later_fragment4 opts m hdr w = Some w' \<Longrightarrow> decisions w' = decisions w"
  "later_fragment6 opts m hdr w = Some w' \<Longrightarrow> decisions w' = decisions w"
  by (auto simp: later_fragment4_def later_fragment6_def Let_def case_prod_beta' elim!: bind_SomeE
      split: option.split_asm if_split_asm)

lemma decisions_call_packet:
  assumes "call_packet opts m hdr data datalen meth i w = Some w'"
  shows "decisions w' = decisions w"
proof -
  define w1 where "w1 = (if meth = str ''BYE'' then with_element i (\<lambda>e. e\<lparr>had_bye := 1\<rparr>) w else w)"
  from assms obtain w2 b where
    w2: "learn_sdp opts m data datalen i w1 = Some w2" "register_fragments m hdr i (dump_sip opts b i w2) = Some w'"
    unfolding call_packet_def w1_def [symmetric] Let_def by (elim bind_SomeE) blast
  have "decisions w1 = decisions w" by (simp add: w1_def)
  then show ?thesis
    using decisions_stages(2) [OF w2(1)] decisions_stages(3) [OF w2(2)] by (simp add: decisions_dump_sip)
qed

section \<open>Every N-th matching call\<close>

text \<open>
  \<open>bs\<close> tells of each call, latest first, whether its first packet matched the method filter;
  \<open>thin N bs\<close> is every \<open>N\<close>-th of those that did.
\<close>

definition matching :: "bool list \<Rightarrow> nat" where
  "matching bs = length (filter id bs)"

fun thin :: "nat \<Rightarrow> bool list \<Rightarrow> bool list" where
  "thin N [] = []"
| "thin N (b # bs) = (b \<and> N dvd matching bs) # thin N bs"

definition skip_counter :: "nat \<Rightarrow> nat \<Rightarrow> int" where
  "skip_counter N n = 1 + (- int n) mod int N"

lemma sample_call_counter:
  assumes "opt_call_skip_n opts = int N" "0 < N"
  shows "sample_call opts (skip_counter N n) = (skip_counter N (Suc n), N dvd n)"
proof -
  define r where "r = (- int n) mod int N"
  have r: "0 \<le> r" "r < int N" "r = 0 \<longleftrightarrow> N dvd n"
    using assms(2) by (simp_all add: r_def mod_eq_0_iff_dvd)
  have "- int (Suc n) = - int n - 1" by simp
  then have "(- int (Suc n)) mod int N = (- int n - 1) mod int N" by (simp only:)
  also have "\<dots> = (r - 1) mod int N" by (simp add: r_def mod_diff_left_eq)
  also have "\<dots> = (if r = 0 then int N - 1 else r - 1)"
  proof (cases "r = 0")
    case True
    then show ?thesis using assms(2) zmod_minus1 [of "int N"] by simp
  next
    case False
    then show ?thesis using r by (simp add: mod_pos_pos_trivial)
  qed
  finally have "(- int (Suc n)) mod int N = (if r = 0 then int N - 1 else r - 1)" .
  then have "skip_counter N (Suc n) = (if r = 0 then int N else r)" by (simp add: skip_counter_def)
  moreover have "skip_counter N n = 1 + r" by (simp add: skip_counter_def r_def)
  ultimately show ?thesis using r assms by (simp add: sample_call_def)
qed

text \<open>\<open>sampled\<close>: the calls so far, which of them matched, and where the counter stands.\<close>

definition sampled :: "nat \<Rightarrow> 'fs env \<Rightarrow> effect list \<times> int \<Rightarrow> bool" where
  "sampled N env d \<longleftrightarrow> (\<exists>bs. fold mark_call (fst d) [] = thin N bs \<and> snd d = skip_counter N (matching bs) \<and>
     ((\<forall>s. method_filter env s) \<longrightarrow> list_all id bs))"

lemma new_call_sampled:
  assumes "new_call opts env meth from to callid t i (emit fx w) = Some w'"
    and "fx = [Fire Trigger_open a b c d k]" "opt_call_skip_n opts = int N" "0 < N"
    and "sampled N env (decisions w)"
  shows "sampled N env (decisions w')"
proof -
  from assms(5) obtain bs where bs: "fold mark_call (filter counts (log w)) [] = thin N bs"
    "call_skip_cnt w = skip_counter N (matching bs)" "(\<forall>s. method_filter env s) \<longrightarrow> list_all id bs"
    by (auto simp: sampled_def decisions_def)
  note step = sample_call_counter [OF assms(3,4), of "matching bs"]
  let ?w = "(emit fx w)\<lparr>call_skip_cnt := skip_counter N (Suc (matching bs))\<rparr>"
  consider (unmatched) "\<not> method_filter env meth" "w' = with_element i (\<lambda>e. e\<lparr>f_pcap := None\<rparr>) (emit fx w)"
    | (skipped) "method_filter env meth" "\<not> N dvd matching bs" "w' = with_element i (\<lambda>e. e\<lparr>f_pcap := None\<rparr>) ?w"
    | (recorded) "method_filter env meth" "N dvd matching bs" "open_file opts env from to callid t i ?w = Some w'"
    using assms(1) bs(2) step by (auto simp: new_call_def emit_def Let_def split: if_split_asm)
  then show ?thesis
  proof cases
    case unmatched
    then show ?thesis unfolding sampled_def using bs assms(2)
      by (intro exI [of _ "False # bs"]) (auto simp: decisions_def emit_def with_element_def matching_def)
  next
    case skipped
    then show ?thesis unfolding sampled_def using bs assms(2)
      by (intro exI [of _ "True # bs"]) (auto simp: decisions_def emit_def with_element_def matching_def)
  next
    case recorded
    from recorded(3) show ?thesis
    proof (cases rule: open_file_shape)
      case (1 fn fs2 ok f name)
      then show ?thesis unfolding sampled_def using recorded(1,2) bs assms(2)
        by (intro exI [of _ "True # bs"]) (auto simp: decisions_def emit_def with_element_def matching_def)
    qed
  qed
qed

lemma handle_sip_sampled:
  assumes "handle_sip opts env h m hdr data datalen meth w = Some w'"
    and "opt_call_skip_n opts = int N" "0 < N" "sampled N env (decisions w)"
  shows "sampled N env (decisions w')"
  using assms(1)
proof (cases rule: handle_sip_cases)
  case (new m' s l from_buf to_buf callid c i fx w2)
  from new(2) obtain a b d e where fx: "fx = [Fire Trigger_open a b d e (tv_sec h)]"
    by (auto simp: calltable_add_def Let_def elim!: bind_SomeE)
  have "sampled N env (decisions w2)"
    using new_call_sampled [OF new(3) fx assms(2,3)] assms(4) by simp
  then show ?thesis using decisions_call_packet [OF new(4)] by simp
qed (use assms(4) in \<open>auto dest: decisions_call_packet\<close>)

lemma handle_payload_sampled:
  assumes "handle_payload opts env h m hdr w = Some w'"
    and "opt_call_skip_n opts = int N" "0 < N" "sampled N env (decisions w)"
  shows "sampled N env (decisions w')"
  using assms(1)
proof (cases rule: handle_payload_cases)
  case (sip data save a p a' p' port_mask s c c')
  from sip(3) obtain is_sip meth where r:
    "(if is_sip then handle_sip opts env h m hdr data (payload_length h data) meth (w\<lparr>ct := c'\<rparr>)
      else Some (w\<lparr>ct := c'\<rparr>)) = Some w'"
    unfolding sip_stage_def case_prod_beta' by (elim bind_SomeE) blast
  have ok: "sampled N env (decisions (w\<lparr>ct := c'\<rparr>))" using assms(4) by simp
  show ?thesis
  proof (cases is_sip)
    case True
    with r show ?thesis using handle_sip_sampled [OF _ assms(2,3) ok] by (simp only: if_True)
  next
    case False
    with r have "w' = w\<lparr>ct := c'\<rparr>" by simp
    with ok show ?thesis by (simp only:)
  qed
qed (use assms(4) in \<open>auto dest: decisions_stages(1)\<close>)

lemma process_packet_sampled:
  assumes "process_packet opts env h m w = Some w'"
    and "opt_call_skip_n opts = int N" "0 < N" "sampled N env (decisions w)"
  shows "sampled N env (decisions w')"
  using assms(1)
proof (cases rule: process_packet_cases)
  case (payload hdr)
  then show ?thesis using handle_payload_sampled [OF payload(5) assms(2,3)] assms(4)
    by (simp add: decisions_periodic_cleanup)
qed (use assms(4) in \<open>auto dest: decisions_fragments simp: decisions_periodic_cleanup\<close>)

lemma capture_loop_sampled:
  "capture_loop opts env ds w = Some w' \<Longrightarrow> opt_call_skip_n opts = int N \<Longrightarrow> 0 < N \<Longrightarrow>
   sampled N env (decisions w) \<Longrightarrow> sampled N env (decisions w')"
proof (induction opts env ds w rule: capture_loop.induct)
  case (3 opts env h m ds w)
  from "3.prems"(1) obtain w1 where w1: "process_packet opts env h m w = Some w1" "capture_loop opts env ds w1 = Some w'"
    by (auto elim!: bind_SomeE)
  show ?case using "3.IH" [OF w1] process_packet_sampled [OF w1(1)] "3.prems" by blast
qed auto

section \<open>The positions of the recorded calls\<close>

lemma length_thin [simp]: "length (thin N bs) = length bs"
  by (induction bs) auto

lemma matching_append: "matching (xs @ ys) = matching xs + matching ys"
  by (simp add: matching_def)

lemma matching_le: "matching bs \<le> length bs"
  by (simp add: matching_def)

lemma matching_all: "list_all id bs \<Longrightarrow> matching bs = length bs"
  by (induction bs) (auto simp: matching_def)

lemma matching_rev: "matching (rev bs) = matching bs"
  by (simp add: matching_def rev_filter [symmetric])

lemma thin_nth:
  "i < length bs \<Longrightarrow> rev (thin N bs) ! i \<longleftrightarrow> rev bs ! i \<and> N dvd matching (take i (rev bs))"
  by (induction bs) (auto simp: nth_append less_Suc_eq matching_rev)

lemma thin_spacing:
  assumes "i < j" "j < length bs" "rev (thin N bs) ! i" "rev (thin N bs) ! j"
  shows "i + N \<le> j"
proof -
  let ?m = "\<lambda>k. matching (take k (rev bs))"
  have "take j (rev bs) = take i (rev bs) @ take (j - i) (drop i (rev bs))"
    using assms(1) take_add [of i "j - i" "rev bs"] by simp
  then have split: "?m j = ?m i + matching (take (j - i) (drop i (rev bs)))" by (simp add: matching_append)
  have "take (j - i) (drop i (rev bs)) = rev bs ! i # take (j - Suc i) (drop (Suc i) (rev bs))"
    using assms(1,2) by (simp add: Cons_nth_drop_Suc [symmetric] take_Cons' )
  moreover have "rev bs ! i" using assms(1-3) by (simp add: thin_nth)
  ultimately have "0 < matching (take (j - i) (drop i (rev bs)))" by (simp add: matching_def)
  moreover have "matching (take (j - i) (drop i (rev bs))) \<le> j - i"
    using matching_le [of "take (j - i) (drop i (rev bs))"] by simp
  moreover have "N dvd ?m i" "N dvd ?m j" using assms by (simp_all add: thin_nth)
  then have "N dvd matching (take (j - i) (drop i (rev bs)))" using split by (simp add: dvd_add_right_iff)
  ultimately have "N \<le> j - i" by (meson dvd_imp_le le_trans)
  then show ?thesis using assms(1) by simp
qed

text \<open>
  C14: with \<open>-l N\<close>, over a whole capture of any packets: two recorded calls are at least \<open>N\<close> calls apart
  in the order the calls entered the table, and when the method filter matches every method, exactly
  the calls at the multiples of \<open>N\<close> are recorded, starting with the first.
\<close>

theorem run_records_every_nth_call:
  assumes "run_capture opts env ds (initial_world timeout t38 fs0) = Some w"
    and "opt_call_skip_n opts = int N" "0 < N"
  shows "(\<forall>i j. i < j \<and> j < length (calls_recorded (log w)) \<and>
        calls_recorded (log w) ! i \<and> calls_recorded (log w) ! j \<longrightarrow> i + N \<le> j) \<and>
    ((\<forall>s. method_filter env s) \<longrightarrow>
      (\<forall>i<length (calls_recorded (log w)). calls_recorded (log w) ! i \<longleftrightarrow> N dvd i))"
proof -
  from assms(1) obtain w1 where w1: "capture_loop opts env ds (initial_world timeout t38 fs0) = Some w1"
    and w: "w = finish_capture w1"
    by (auto simp: run_capture_def)
  have "sampled N env (decisions (initial_world timeout t38 fs0))"
    unfolding sampled_def
    by (intro exI [of _ "[]"]) (simp add: decisions_def initial_world_def skip_counter_def matching_def)
  from capture_loop_sampled [OF w1 assms(2,3) this] have "sampled N env (decisions w1)" .
  moreover have "decisions w = decisions w1"
    using do_cleanup_counts [of "ct w1" INT32_MAX]
    by (simp add: w finish_capture_def decisions_def emit_def case_prod_beta' Let_def)
  ultimately have "sampled N env (decisions w)" by simp
  then obtain bs where marks: "fold mark_call (filter counts (log w)) [] = thin N bs"
    and all: "(\<forall>s. method_filter env s) \<longrightarrow> list_all id bs"
    unfolding sampled_def decisions_def fst_conv by blast
  have recorded: "calls_recorded (log w) = rev (thin N bs)"
    using marks by (simp add: calls_recorded_def fold_mark_filter)
  have exact: "rev (thin N bs) ! i \<longleftrightarrow> N dvd i" if "list_all id bs" "i < length bs" for i
  proof -
    have all: "list_all id (rev bs)" using that(1) by simp
    have "list_all id (take i (rev bs))"
      using all by (metis append_take_drop_id list_all_append)
    then have "matching (take i (rev bs)) = i" using matching_all that(2) by fastforce
    moreover have "rev bs ! i" using all that(2) unfolding list_all_length by simp
    ultimately show ?thesis using that(2) by (simp add: thin_nth)
  qed
  show ?thesis unfolding recorded length_rev length_thin using all exact thin_spacing by blast
qed

text \<open>Two calls of which the first is recorded and the second, as \<open>-l 3\<close> asks, is not.\<close>

definition second_delivery :: delivery where
  "second_delivery = (let m = udp_packet [0x13, 0xc4] [0x13, 0xc4] (str ''INVITE b'' @ [LF] @ str ''i: c'' @ [LF]) in
     Packet (hdr_of m 1001) (m @ replicate 4 0))"

definition any_method_env :: "unit env" where
  "any_method_env = test_env\<lparr>method_filter := \<lambda>s. True\<rparr>"

lemma two_calls_run:
  "map_option (\<lambda>w. calls_recorded (log w))
     (run_capture test_opts any_method_env [small_delivery, second_delivery] (initial_world 1000 False ())) =
   Some [True, False]"
  by code_simp

theorem run_records_every_nth_call_witness:
  "\<exists>w. run_capture test_opts any_method_env [small_delivery, second_delivery] (initial_world 1000 False ()) = Some w \<and>
    length (calls_recorded (log w)) = 2 \<and> (\<forall>i<2. calls_recorded (log w) ! i \<longleftrightarrow> 3 dvd i)"
proof -
  obtain w where w: "run_capture test_opts any_method_env [small_delivery, second_delivery] (initial_world 1000 False ()) = Some w"
    "calls_recorded (log w) = [True, False]"
    using two_calls_run by auto
  from run_records_every_nth_call [OF w(1), of 3] w show ?thesis
    by (simp add: test_opts_def any_method_env_def numeral_2_eq_2)
qed

end
