(* ===== verification/CalltableCache.thy ===== *)
theory CalltableCache
  imports Calltable
begin

text \<open>
  \<open>calltable.cpp\<close> built with \<open>USE_CALLTABLE_CACHE\<close>: the two maps that spare the scan of the table, over
  the model of the plain table (\<open>Calltable\<close>). The fragment operations are those of the plain table.
\<close>

section \<open>The maps\<close>

text \<open>
  A pointer to an element is the storage of the vector it points into with an index. \<open>push_back\<close> may
  move the vector to a new storage, which is for the library to choose: \<open>grow n\<close> is whether it does
  for the \<open>n\<close>-th element.
\<close>

type_synonym ce_pointer = "nat \<times> nat"

datatype addr_port = Addr_port (ap_addr: u32) (ap_port: u16)

text \<open>\<open>operator <\<close> on the keys of the flow cache.\<close>

definition addr_port_less :: "addr_port \<Rightarrow> addr_port \<Rightarrow> bool" where
  "addr_port_less a b \<longleftrightarrow> ap_addr a < ap_addr b \<or> ap_addr a = ap_addr b \<and> ap_port a < ap_port b"

instantiation addr_port :: linorder
begin

definition less_addr_port :: "addr_port \<Rightarrow> addr_port \<Rightarrow> bool" where
  "less_addr_port = addr_port_less"

definition less_eq_addr_port :: "addr_port \<Rightarrow> addr_port \<Rightarrow> bool" where
  "less_eq_addr_port a b \<longleftrightarrow> \<not> b < (a :: addr_port)"

instance
proof
  fix x y z :: addr_port
  show "x < y \<longleftrightarrow> x \<le> y \<and> \<not> y \<le> x" by (auto simp: less_addr_port_def addr_port_less_def less_eq_addr_port_def)
  show "x \<le> x" by (simp add: less_addr_port_def addr_port_less_def less_eq_addr_port_def)
  show "x \<le> z" if "x \<le> y" "y \<le> z" using that by (auto simp: less_addr_port_def addr_port_less_def less_eq_addr_port_def)
  show "x = y" if "x \<le> y" "y \<le> x"
    using that by (cases x; cases y) (auto simp: less_addr_port_def addr_port_less_def less_eq_addr_port_def)
  show "x \<le> y \<or> y \<le> x" by (auto simp: less_addr_port_def addr_port_less_def less_eq_addr_port_def)
qed

end

datatype ce_irtp_ssrc = Ce_irtp_ssrc (cached_ce: "ce_pointer option") (cached_irtp: nat) (cached_ssrc: u32)

record cached_table =
  base :: calltable
  storage :: nat
  cache :: "addr_port \<rightharpoonup> ce_irtp_ssrc"
  call_id_cache :: "byte list \<rightharpoonup> nat"

definition new_cached_table :: cached_table where
  "new_cached_table = \<lparr>base = new_calltable, storage = 0, cache = Map.empty, call_id_cache = Map.empty\<rparr>"

definition deref :: "cached_table \<Rightarrow> ce_pointer \<Rightarrow> nat option" where
  "deref ct ptr = (if fst ptr = storage ct \<and> snd ptr < length (table (base ct)) then Some (snd ptr) else None)"

section \<open>Operations\<close>

definition cached_add ::
  "(nat \<Rightarrow> bool) \<Rightarrow> cached_table \<Rightarrow> byte list \<Rightarrow> nat \<Rightarrow> byte list \<Rightarrow> byte list \<Rightarrow> int \<Rightarrow>
   (cached_table \<times> nat \<times> effect list) option" where
  "cached_add grow ct cid cid_len from to time = do {
     (b, idx, fx) \<leftarrow> calltable_add (base ct) cid cid_len from to time;
     s \<leftarrow> region cid 0 cid_len;
     let moved = (idx = length (table (base ct)) \<and> grow idx);
     Some (ct\<lparr>base := b, storage := storage ct + (if moved then 1 else 0),
              call_id_cache := (call_id_cache ct)(s \<mapsto> idx)\<rparr>, idx, fx) }"

definition cached_find_by_call_id :: "cached_table \<Rightarrow> byte list \<Rightarrow> nat \<Rightarrow> nat option option" where
  "cached_find_by_call_id ct cid cid_len = map_option (call_id_cache ct) (region cid 0 cid_len)"

definition cached_add_ip_port :: "cached_table \<Rightarrow> nat \<Rightarrow> u32 \<Rightarrow> u16 \<Rightarrow> int \<times> cached_table" where
  "cached_add_ip_port ct idx addr p = (
     let ce = table (base ct) ! idx; (r, ce') = add_ip_port ce addr p in
     if ip_n ce' = ip_n ce then (r, ct)
     else (r, ct\<lparr>base := (base ct)\<lparr>table := (table (base ct))[idx := ce']\<rparr>,
                 cache := (cache ct)(Addr_port addr p \<mapsto> Ce_irtp_ssrc (Some (storage ct, idx)) (ip_n ce) 0)\<rparr>))"

text \<open>The search of the whole table, which leaves an entry whether it finds the flow or not.\<close>

definition full_search ::
  "cached_table \<Rightarrow> u32 \<Rightarrow> u16 \<Rightarrow> u32 \<Rightarrow> cached_table \<times> (nat \<times> nat) option" where
  "full_search ct addr p s =
     (case find_ip_port_ssrc (base ct) addr p s of
        (b, Some (i_leg, i_rtp)) \<Rightarrow>
          (ct\<lparr>base := b, cache := (cache ct)(Addr_port addr p \<mapsto> Ce_irtp_ssrc (Some (storage ct, i_leg)) i_rtp s)\<rparr>,
           Some (i_leg, i_rtp))
      | (b, None) \<Rightarrow>
          (ct\<lparr>base := b, cache := (cache ct)(Addr_port addr p \<mapsto> Ce_irtp_ssrc None 0 0)\<rparr>, None))"

text \<open>A pointer out of the cache is dereferenced here or by the caller, so it has to be valid.\<close>

definition cached_find_ip_port_ssrc ::
  "cached_table \<Rightarrow> u32 \<Rightarrow> u16 \<Rightarrow> u32 \<Rightarrow> (cached_table \<times> (nat \<times> nat) option) option" where
  "cached_find_ip_port_ssrc ct addr p s =
     (case cache ct (Addr_port addr p) of
        None \<Rightarrow> Some (full_search ct addr p s)
      | Some entry \<Rightarrow>
          (case cached_ce entry of
             None \<Rightarrow> Some (ct, None)
           | Some ptr \<Rightarrow> do {
               idx \<leftarrow> deref ct ptr;
               let ce = table (base ct) ! idx;
               let i_rtp = cached_irtp entry;
               if s \<noteq> cached_ssrc entry then
                 if had_bye ce \<noteq> 0 then Some (full_search (ct\<lparr>cache := (cache ct)(Addr_port addr p := None)\<rparr>) addr p s)
                 else Some (ct\<lparr>base := (base ct)\<lparr>table := (table (base ct))[idx := ce\<lparr>ssrc := (ssrc ce)[i_rtp := s]\<rparr>]\<rparr>,
                               cache := (cache ct)(Addr_port addr p \<mapsto> Ce_irtp_ssrc (Some ptr) i_rtp s)\<rparr>, Some (idx, i_rtp))
               else Some (ct, Some (idx, i_rtp)) }))"

text \<open>
  \<open>do_cleanup\<close> erases entries only after it has zeroed the element: no flow (\<open>ip_n\<close> is 0), and the
  Call-ID of length 0.
\<close>

definition cached_do_cleanup :: "cached_table \<Rightarrow> int \<Rightarrow> cached_table \<times> effect list" where
  "cached_do_cleanup ct currtime = (
     let (b, fx) = do_cleanup (base ct) currtime in
     (ct\<lparr>base := b,
         call_id_cache := (if \<exists>e\<in>set (table (base ct)). expired (base ct) currtime e
                           then (call_id_cache ct)([] := None) else call_id_cache ct)\<rparr>, fx))"

section \<open>Call-IDs\<close>

text \<open>The map and the scan of the table agree on the Call-IDs that fit the element.\<close>

definition ids_agree :: "cached_table \<Rightarrow> bool" where
  "ids_agree ct \<longleftrightarrow> (\<forall>cid n. n \<le> 32 \<longrightarrow> n \<le> length cid \<longrightarrow>
     cached_find_by_call_id ct cid n = Some (find_by_call_id (base ct) cid n))"

text \<open>
  C39: with \<open>USE_CALLTABLE_CACHE\<close> the lookup of a Call-ID of at most 32 bytes gives what the scan of the
  table gives: in the empty table, and still after calls with new Call-IDs are added, of any length.
\<close>

theorem cached_ids_agree:
  shows "ids_agree new_cached_table \<and>
    (ids_agree ct \<and> ct_inv (base ct) \<and> find_by_call_id (base ct) cid n = None \<and>
      cached_add grow ct cid n from to time = Some (ct', idx, fx) \<longrightarrow>
     ids_agree ct' \<and> ct_inv (base ct') \<and> cached_find_by_call_id ct' cid n = Some (Some idx))"
proof (intro conjI impI; (elim conjE)?)
  show "ids_agree new_cached_table"
    by (simp add: ids_agree_def cached_find_by_call_id_def new_cached_table_def find_by_call_id_def
        new_calltable_def region_def)
  assume agree: "ids_agree ct" and inv: "ct_inv (base ct)" and new: "find_by_call_id (base ct) cid n = None"
    and add: "cached_add grow ct cid n from to time = Some (ct', idx, fx)"
  from add obtain b where b: "calltable_add (base ct) cid n from to time = Some (b, idx, fx)"
    "base ct' = b" "n \<le> length cid" "call_id_cache ct' = (call_id_cache ct)(take n cid \<mapsto> idx)"
    by (auto simp: cached_add_def Let_def region_eq_Some elim!: bind_SomeE)
  show "ct_inv (base ct')" using calltable_add_inv [OF inv new b(1)] b(2) by simp
  show "cached_find_by_call_id ct' cid n = Some (Some idx)"
    using b(3,4) by (simp add: cached_find_by_call_id_def region_def)
  show "ids_agree ct'"
    unfolding ids_agree_def
  proof (intro allI impI)
    fix cid' :: "byte list" and n'
    assume n': "n' \<le> 32" "n' \<le> length cid'"
    show "cached_find_by_call_id ct' cid' n' = Some (find_by_call_id (base ct') cid' n')"
    proof (cases "take n' cid' = take n cid")
      case True
      then have "n' = n" using n' b(3) by (metis length_take min.absorb2)
      with True have "callid_key cid' n' = callid_key cid n" using n' by (simp add: callid_key_def)
      then have "find_by_call_id b cid' n' = Some idx"
        using calltable_add_find_same [OF inv new b(1)] by (simp add: find_by_call_id_key)
      then show ?thesis using True b n' by (simp add: cached_find_by_call_id_def region_def)
    next
      case False
      have "callid_key cid' n' \<noteq> callid_key cid n"
      proof
        assume "callid_key cid' n' = callid_key cid n"
        then have "n' = n" "take (min n' 32) cid' = take (min n 32) cid" unfolding callid_key_def by blast+
        with n' False show False by (simp add: min_def)
      qed
      then have "find_by_call_id b cid' n' = find_by_call_id (base ct) cid' n'"
        using calltable_add_find_other [OF inv b(1)] by blast
      moreover have "cached_find_by_call_id ct cid' n' = Some (find_by_call_id (base ct) cid' n')"
        using agree n' by (simp add: ids_agree_def)
      ultimately show ?thesis using False b n' by (simp add: cached_find_by_call_id_def region_def)
    qed
  qed
qed

theorem cached_ids_agree_witness:
  "\<exists>ct' idx fx. cached_add (\<lambda>n. True) new_cached_table (str ''a@b'') 3 (replicate 16 0) (replicate 16 0) 0 = Some (ct', idx, fx) \<and>
    ids_agree ct' \<and> cached_find_by_call_id ct' (str ''a@b'') 3 = Some (Some idx)"
proof -
  have inv: "ct_inv (base new_cached_table)" using new_calltable_inv by (simp add: new_cached_table_def)
  have none: "find_by_call_id (base new_cached_table) cid n = None" for cid n
    by (simp add: new_cached_table_def find_by_call_id_def new_calltable_def)
  have "calltable_add (base new_cached_table) (str ''a@b'') 3 (replicate 16 0) (replicate 16 0) 0 \<noteq> None"
    by (rule calltable_add_defined [OF inv]) simp_all
  then obtain ct' idx fx where add: "cached_add (\<lambda>n. True) new_cached_table (str ''a@b'') 3 (replicate 16 0) (replicate 16 0) 0 = Some (ct', idx, fx)"
    by (auto simp: cached_add_def region_def)
  then show ?thesis
    using cached_ids_agree [THEN conjunct1] cached_ids_agree [THEN conjunct2, of new_cached_table] inv none by blast
qed

text \<open>
  C40: with \<open>USE_CALLTABLE_CACHE\<close>, clean-up forgets nothing that was cached. The Call-ID of an expired
  call still gives its slot, which the scan of the table no longer finds, and a flow of it still gives
  the slot after a new call has taken it over: the packets of the flow then count as packets of a
  call that never announced it.
\<close>

theorem cache_outlives_call:
  assumes "cache ct (Addr_port a p) = Some (Ce_irtp_ssrc (Some (storage ct, idx)) r s)" "call_id_cache ct cid = Some idx" "cid \<noteq> []"
    and "ct_inv (base ct)" "find_by_call_id (base ct) cid (length cid) = Some idx" "expired (base ct) t (table (base ct) ! idx)"
    and "find_index (\<lambda>e. is_used e = 0) (table (fst (do_cleanup (base ct) t))) = Some idx"
    and "cached_add grow (fst (cached_do_cleanup ct t)) cid' n from to t' = Some (ct2, idx', fx)"
  shows "cached_find_by_call_id (fst (cached_do_cleanup ct t)) cid (length cid) = Some (Some idx) \<and>
    find_by_call_id (base (fst (cached_do_cleanup ct t))) cid (length cid) = None \<and>
    idx' = idx \<and> cached_find_ip_port_ssrc ct2 a p s = Some (ct2, Some (idx, r)) \<and> flows (table (base ct2) ! idx) = []"
proof -
  let ?ct1 = "fst (cached_do_cleanup ct t)"
  have ct1: "base ?ct1 = fst (do_cleanup (base ct) t)" "storage ?ct1 = storage ct" "cache ?ct1 = cache ct"
    "call_id_cache ?ct1 cid = call_id_cache ct cid"
    using assms(3) by (auto simp: cached_do_cleanup_def Let_def split: prod.split)
  from assms(8) obtain b where b: "calltable_add (base ?ct1) cid' n from to t' = Some (b, idx', fx)" "base ct2 = b"
    "storage ct2 = storage ct + (if idx' = length (table (base ?ct1)) \<and> grow idx' then 1 else 0)" "cache ct2 = cache ct"
    using ct1(2,3) by (auto simp: cached_add_def Let_def elim!: bind_SomeE)
  have idx: "idx < length (table (base ct))" using find_by_call_id_bound [OF assms(5)] by simp
  have len: "length (table (base ?ct1)) = length (table (base ct))" by (simp add: ct1(1) do_cleanup_def)
  have inv1: "ct_inv (base ?ct1)" using do_cleanup_inv [OF assms(4)] ct1(1) by simp
  have idx': "idx' = idx" using b(1) assms(7) ct1(1) by (auto simp: calltable_add_def Let_def elim!: bind_SomeE)
  have "flows (table b ! idx) = [] \<and> length (table b) = length (table (base ct))"
    using inv1 b(1)
  proof (cases rule: calltable_add_cases)
    case (1 tab e)
    then show ?thesis using idx idx' len by auto
  qed
  moreover have "find_by_call_id (base ?ct1) cid (length cid) = None"
    using call_not_found_after_cleanup [OF assms(4-6)] ct1(1) by simp
  ultimately show ?thesis
    using b idx idx' len assms(1,2) ct1(4)
    by (simp add: cached_find_by_call_id_def region_def cached_find_ip_port_ssrc_def deref_def Let_def)
qed

definition flow_cache :: cached_table where
  "flow_cache = \<lparr>base = flow_call, storage = 0, cache = [Addr_port 5 4000 \<mapsto> Ce_irtp_ssrc (Some (0, 0)) 0 77],
     call_id_cache = [str ''abc@host'' \<mapsto> 0]\<rparr>"

theorem cache_outlives_call_witness:
  "\<exists>ct2 fx. cached_add (\<lambda>n. True) (fst (cached_do_cleanup flow_cache 5000)) (str ''a@b'') 3 (replicate 16 0) (replicate 16 0) 5000 =
      Some (ct2, 0, fx) \<and>
    cached_find_ip_port_ssrc ct2 5 4000 77 = Some (ct2, Some (0, 0)) \<and> flows (table (base ct2) ! 0) = []"
proof -
  let ?ct1 = "fst (cached_do_cleanup flow_cache 5000)"
  have inv: "ct_inv (base flow_cache)" using flow_call_inv by (simp add: flow_cache_def)
  have "base ?ct1 = fst (do_cleanup (base flow_cache) 5000)"
    by (simp add: cached_do_cleanup_def Let_def split: prod.split)
  then have "ct_inv (base ?ct1)" using do_cleanup_inv [OF inv] by simp
  then have "calltable_add (base ?ct1) (str ''a@b'') 3 (replicate 16 0) (replicate 16 0) 5000 \<noteq> None"
    by (rule calltable_add_defined) simp_all
  then obtain ct2 idx fx where add: "cached_add (\<lambda>n. True) ?ct1 (str ''a@b'') 3 (replicate 16 0) (replicate 16 0) 5000 = Some (ct2, idx, fx)"
    by (auto simp: cached_add_def region_def)
  have facts: "cache flow_cache (Addr_port 5 4000) = Some (Ce_irtp_ssrc (Some (storage flow_cache, 0)) 0 77)"
    "call_id_cache flow_cache (str ''abc@host'') = Some 0" "str ''abc@host'' \<noteq> []"
    "find_by_call_id (base flow_cache) (str ''abc@host'') (length (str ''abc@host'')) = Some 0"
    "expired (base flow_cache) 5000 (table (base flow_cache) ! 0)"
    "find_index (\<lambda>e. is_used e = 0) (table (fst (do_cleanup (base flow_cache) 5000))) = Some 0"
    by code_simp+
  from cache_outlives_call [OF facts(1-3) inv facts(4-6) add] add show ?thesis by blast
qed

section \<open>What the cached pointers point to\<close>

definition flow_at :: "calltable \<Rightarrow> addr_port \<Rightarrow> nat \<Rightarrow> nat \<Rightarrow> bool" where
  "flow_at c ap i r \<longleftrightarrow> i < length (table c) \<and> r < length (flows (table c ! i)) \<and>
     flows (table c ! i) ! r = (ap_addr ap, ap_port ap)"

definition cache_sound :: "cached_table \<Rightarrow> bool" where
  "cache_sound ct \<longleftrightarrow> (\<forall>ap entry ptr. cache ct ap = Some entry \<longrightarrow> cached_ce entry = Some ptr \<longrightarrow>
     fst ptr = storage ct \<and> flow_at (base ct) ap (snd ptr) (cached_irtp entry))"

text \<open>Calls keep their slots and the flows they have.\<close>

definition flows_grow :: "calltable \<Rightarrow> calltable \<Rightarrow> bool" where
  "flows_grow c c' \<longleftrightarrow> (\<forall>ap i r. flow_at c ap i r \<longrightarrow> flow_at c' ap i r)"

lemma flows_grow_update:
  assumes "i < length (table c)" "\<exists>fs. flows e = flows (table c ! i) @ fs"
  shows "flows_grow c (c\<lparr>table := (table c)[i := e]\<rparr>)"
  using assms by (auto simp: flows_grow_def flow_at_def nth_append nth_list_update)

lemma flows_grow_same: "i < length (table c) \<Longrightarrow> flows e = flows (table c ! i) \<Longrightarrow> flows_grow c (c\<lparr>table := (table c)[i := e]\<rparr>)"
  by (rule flows_grow_update) simp_all

lemma cache_sound_grow:
  assumes "cache_sound ct" "flows_grow (base ct) (base ct')" "storage ct' = storage ct"
    and "\<And>ap entry ptr. cache ct' ap = Some entry \<Longrightarrow> cached_ce entry = Some ptr \<Longrightarrow>
      cache ct ap = Some entry \<or> fst ptr = storage ct \<and> flow_at (base ct') ap (snd ptr) (cached_irtp entry)"
  shows "cache_sound ct'"
  using assms unfolding cache_sound_def flows_grow_def by metis

lemma calltable_add_grows:
  assumes "ct_inv c" "calltable_add c cid n from to time = Some (c', idx, fx)"
  shows "flows_grow c c'"
  using assms
proof (cases rule: calltable_add_cases)
  case (1 tab e)
  have "flows zero_element = []" by (simp add: zero_element_def flows_def)
  then have "i \<noteq> idx" if "flow_at c ap i r" for ap i r
    using 1(1-4) that by (auto simp: flow_at_def nth_append split: if_split_asm)
  then show ?thesis using 1(1,2,5) by (auto simp: flows_grow_def flow_at_def nth_append nth_list_update)
qed

text \<open>The operations on a table whose storage does not move, and what \<open>main\<close> sets in an element.\<close>

inductive cached_step :: "cached_table \<Rightarrow> cached_table \<Rightarrow> bool" where
  Add: "find_by_call_id (base ct) cid n = None \<Longrightarrow> cached_add grow ct cid n from to time = Some (ct', idx, fx) \<Longrightarrow>
    storage ct' = storage ct \<Longrightarrow> cached_step ct ct'"
| Learn: "i < length (table (base ct)) \<Longrightarrow> is_used (table (base ct) ! i) \<noteq> 0 \<Longrightarrow>
    cached_step ct (snd (cached_add_ip_port ct i a p))"
| Find: "cached_find_ip_port_ssrc ct a p s = Some (ct', hit) \<Longrightarrow> cached_step ct ct'"
| Set: "i < length (table (base ct)) \<Longrightarrow> is_used (table (base ct) ! i) \<noteq> 0 \<Longrightarrow> length name = 128 \<Longrightarrow>
    cached_step ct (ct\<lparr>base := (base ct)\<lparr>table := (table (base ct))[i := (table (base ct) ! i)
      \<lparr>had_bye := b, had_t38 := t, rtpmap_event := r, last_packet_time := lt, packets := k, f_pcap := f, fn_pcap := name\<rparr>]\<rparr>\<rparr>)"
| Clean: "list_all (\<lambda>e. \<not> expired (base ct) t e) (table (base ct)) \<Longrightarrow> cached_step ct (fst (cached_do_cleanup ct t))"

definition cached_inv :: "cached_table \<Rightarrow> bool" where
  "cached_inv ct \<longleftrightarrow> ct_inv (base ct) \<and> cache_sound ct"

lemma full_search_inv:
  assumes "cached_inv ct" "full_search ct a p s = (ct', hit)"
  shows "cached_inv ct' \<and> (\<forall>i r. hit = Some (i, r) \<longrightarrow> flow_at (base ct) (Addr_port a p) i r)"
proof (cases "find_ip_port_ssrc (base ct) a p s")
  case (Pair b h)
  have inv: "ct_inv (base ct)" "cache_sound ct" using assms(1) by (simp_all add: cached_inv_def)
  have b: "ct_inv b" using find_ip_port_ssrc_inv [OF inv(1), of a p s] Pair by simp
  show ?thesis
  proof (cases h)
    case None
    then have "b = base ct" using Pair by (auto simp: find_ip_port_ssrc_def Let_def split: option.split_asm)
    then have "cache_sound ct'" "base ct' = b" "hit = None"
      using assms(2) Pair None by (auto simp: full_search_def flows_grow_def intro!: cache_sound_grow [OF inv(2)] split: if_split_asm)
    then show ?thesis using b by (simp add: cached_inv_def)
  next
    case (Some ir)
    obtain i r where h: "h = Some (i, r)" using Some by (cases ir) simp
    from find_ip_port_ssrc_SomeD [OF inv(1) Pair [unfolded h]]
    have flow: "flow_at (base ct) (Addr_port a p) i r" and
      upd: "b = (base ct)\<lparr>table := (table (base ct))[i := (table (base ct) ! i)\<lparr>ssrc := (ssrc (table (base ct) ! i))[r := s]\<rparr>]\<rparr>"
      by (auto simp: flow_matches_def flow_at_def)
    have grow: "flows_grow (base ct) b"
      unfolding upd using flow by (intro flows_grow_same) (auto simp: flow_at_def flows_def)
    have ct': "ct' = ct\<lparr>base := b, cache := (cache ct)(Addr_port a p \<mapsto> Ce_irtp_ssrc (Some (storage ct, i)) r s)\<rparr>" "hit = Some (i, r)"
      using assms(2) Pair h by (auto simp: full_search_def)
    have "cache_sound ct'"
      using grow flow unfolding ct' by (intro cache_sound_grow [OF inv(2)]) (auto simp: flows_grow_def split: if_split_asm)
    then show ?thesis using b flow ct' by (simp add: cached_inv_def)
  qed
qed

lemma cached_find_inv:
  assumes "cached_inv ct"
  shows "\<exists>ct' hit. cached_find_ip_port_ssrc ct a p s = Some (ct', hit) \<and> cached_inv ct' \<and>
    (\<forall>i r. hit = Some (i, r) \<longrightarrow> flow_at (base ct) (Addr_port a p) i r)"
proof -
  have inv: "ct_inv (base ct)" "cache_sound ct" using assms by (simp_all add: cached_inv_def)
  consider (none) "cache ct (Addr_port a p) = None"
  | (no_ptr) entry where "cache ct (Addr_port a p) = Some entry" "cached_ce entry = None"
  | (ptr) entry ptr where "cache ct (Addr_port a p) = Some entry" "cached_ce entry = Some ptr"
    by (metis not_None_eq)
  then show ?thesis
  proof cases
    case none
    obtain ct' hit where "full_search ct a p s = (ct', hit)" by (rule prod.exhaust)
    with full_search_inv [OF assms this] none show ?thesis by (simp add: cached_find_ip_port_ssrc_def)
  next
    case no_ptr
    then show ?thesis using assms by (simp add: cached_find_ip_port_ssrc_def)
  next
    case (ptr entry ptr)
    let ?i = "snd ptr" and ?r = "cached_irtp entry"
    have at: "fst ptr = storage ct" "flow_at (base ct) (Addr_port a p) ?i ?r"
      using inv(2) ptr unfolding cache_sound_def by blast+
    then have i: "?i < length (table (base ct))" by (simp add: flow_at_def)
    then have ref: "deref ct ptr = Some ?i" using at by (simp add: deref_def)
    let ?ce = "table (base ct) ! ?i"
    consider (same) "s = cached_ssrc entry" | (bye) "s \<noteq> cached_ssrc entry" "had_bye ?ce \<noteq> 0"
      | (new) "s \<noteq> cached_ssrc entry" "had_bye ?ce = 0" by blast
    then show ?thesis
    proof cases
      case same
      then show ?thesis using assms ptr ref at by (simp add: cached_find_ip_port_ssrc_def Let_def)
    next
      case bye
      let ?ct = "ct\<lparr>cache := (cache ct)(Addr_port a p := None)\<rparr>"
      have "cache_sound ?ct" using inv(2) by (auto simp: cache_sound_def)
      then have "cached_inv ?ct" using inv(1) by (simp add: cached_inv_def)
      moreover obtain ct' hit where "full_search ?ct a p s = (ct', hit)" by (rule prod.exhaust)
      ultimately show ?thesis
        using full_search_inv [of ?ct a p s ct' hit] ptr ref bye by (simp add: cached_find_ip_port_ssrc_def Let_def)
    next
      case new
      let ?b = "(base ct)\<lparr>table := (table (base ct))[?i := ?ce\<lparr>ssrc := (ssrc ?ce)[?r := s]\<rparr>]\<rparr>"
      let ?ct = "ct\<lparr>base := ?b, cache := (cache ct)(Addr_port a p \<mapsto> Ce_irtp_ssrc (Some ptr) ?r s)\<rparr>"
      have ok: "element_ok ?ce" "is_used ?ce \<noteq> 0"
        using ct_inv_element [OF inv(1) i] at(2) by (auto simp: flow_at_def element_ok_def zero_element_def flows_def)
      have "ct_inv ?b"
        using ct_inv_update [OF inv(1) i element_ok_fields(4) [OF ok]] ok(2) by (simp add: call_key_fields)
      moreover have grow: "flows_grow (base ct) ?b" using i by (intro flows_grow_same) (simp_all add: flows_def)
      then have "cache_sound ?ct"
        using at by (intro cache_sound_grow [OF inv(2)]) (auto simp: flows_grow_def split: if_split_asm)
      ultimately show ?thesis
        using ptr ref new at(2) by (simp add: cached_find_ip_port_ssrc_def Let_def cached_inv_def)
    qed
  qed
qed

lemma cached_add_ip_port_inv:
  assumes "cached_inv ct" "i < length (table (base ct))" "is_used (table (base ct) ! i) \<noteq> 0"
  shows "cached_inv (snd (cached_add_ip_port ct i a p))"
proof -
  let ?ce = "table (base ct) ! i" and ?e = "snd (add_ip_port (table (base ct) ! i) a p)"
  have inv: "ct_inv (base ct)" "cache_sound ct" using assms(1) by (simp_all add: cached_inv_def)
  have ok: "element_ok ?ce" by (rule ct_inv_element [OF inv(1) assms(2)])
  note e = add_ip_port_ok [OF ok assms(3), of a p]
  show ?thesis
  proof (cases "ip_n ?e = ip_n ?ce")
    case True
    then show ?thesis using assms(1) by (auto simp: cached_add_ip_port_def Let_def split: prod.split)
  next
    case False
    let ?b = "(base ct)\<lparr>table := (table (base ct))[i := ?e]\<rparr>"
    have new: "flows ?e = flows ?ce @ [(a, p)]" using e False length_flows [OF ok] length_flows [of ?e] by (auto split: if_split_asm)
    have ct': "snd (cached_add_ip_port ct i a p) =
        ct\<lparr>base := ?b, cache := (cache ct)(Addr_port a p \<mapsto> Ce_irtp_ssrc (Some (storage ct, i)) (ip_n ?ce) 0)\<rparr>"
      using False by (simp add: cached_add_ip_port_def Let_def case_prod_beta')
    have "ct_inv ?b"
      using e assms(3) by (intro ct_inv_update [OF inv(1) assms(2)]) (simp_all add: add_ip_port_key)
    moreover have "cache_sound (snd (cached_add_ip_port ct i a p))"
      unfolding ct' using assms(2) new length_flows [OF ok]
      by (intro cache_sound_grow [OF inv(2)]) (auto intro: flows_grow_update simp: flow_at_def nth_append split: if_split_asm)
    ultimately show ?thesis by (simp add: cached_inv_def ct')
  qed
qed

lemma cached_step_inv: "cached_step ct ct' \<Longrightarrow> cached_inv ct \<Longrightarrow> cached_inv ct'"
proof (induction rule: cached_step.induct)
  case (Add ct cid n grow "from" to time ct' idx fx)
  from Add.hyps(2) obtain b where b: "calltable_add (base ct) cid n from to time = Some (b, idx, fx)"
    "base ct' = b" "cache ct' = cache ct"
    by (auto simp: cached_add_def Let_def elim!: bind_SomeE)
  then show ?case
    using Add.prems calltable_add_inv [OF _ Add.hyps(1) b(1)] calltable_add_grows [OF _ b(1)] Add.hyps(3)
    by (auto simp: cached_inv_def intro: cache_sound_grow)
next
  case (Learn i ct a p)
  then show ?case by (rule_tac cached_add_ip_port_inv)
next
  case (Find ct a p s ct' hit)
  then show ?case using cached_find_inv [OF Find.prems, of a p s] by auto
next
  case (Set i ct name f k lt r t b)
  let ?e = "(table (base ct) ! i)\<lparr>had_bye := b, had_t38 := t, rtpmap_event := r, last_packet_time := lt, packets := k, f_pcap := f, fn_pcap := name\<rparr>"
  have inv: "ct_inv (base ct)" "cache_sound ct" using Set.prems by (simp_all add: cached_inv_def)
  have "element_ok ?e" using ct_inv_element [OF inv(1) Set.hyps(1)] Set.hyps(2,3) by (simp add: element_ok_def flows_def)
  then have "ct_inv ((base ct)\<lparr>table := (table (base ct))[i := ?e]\<rparr>)"
    using Set.hyps by (intro ct_inv_update [OF inv(1)]) (simp_all add: call_key_def)
  moreover have "flows_grow (base ct) ((base ct)\<lparr>table := (table (base ct))[i := ?e]\<rparr>)"
    using Set.hyps(1) by (intro flows_grow_same) (simp_all add: flows_def)
  ultimately show ?case by (auto simp: cached_inv_def intro: cache_sound_grow [OF inv(2)])
next
  case (Clean ct t)
  have "map (fst \<circ> cleanup_element (base ct) t) (table (base ct)) = table (base ct)"
    using Clean.hyps by (intro map_idI) (auto simp: cleanup_element_def list_all_iff)
  then have "base (fst (cached_do_cleanup ct t)) = base ct" "cache (fst (cached_do_cleanup ct t)) = cache ct"
    "storage (fst (cached_do_cleanup ct t)) = storage ct"
    by (simp_all add: cached_do_cleanup_def do_cleanup_def)
  then show ?case using Clean.prems by (simp add: cached_inv_def cache_sound_def)
qed



end
