(* ===== verification/Spec2Isabelle.thy ===== *)
theory Spec2Isabelle
  imports Options CaptureSafety CaptureTimes CaptureSampling CalltableCache
begin

text \<open>
  pcapsipdump captures SIP calls: it reads packets from libpcap, keeps a table of the calls in
  progress and writes the signalling and the media of each call to a pcap file of its own.

  The parts of the program and their theories, in the order data flows through them:

  \<^item> \<open>Options\<close>: \<open>main\<close> before the loop (\<open>pcapsipdump.cpp\<close>). \<open>option_step\<close> is the \<open>switch\<close> over the
    options, \<open>parse_options\<close> its loop, \<open>filter_exp_loop\<close> the trailing arguments, \<open>open_capture_calls\<close> the
    libpcap calls in their order, \<open>main_setup\<close> the whole up to the first packet.
  \<^item> \<open>Trigger\<close>: \<open>trigger.cpp\<close>. \<open>trigger_add\<close> parses \<open>-t\<close>, \<open>trigger_trigger\<close> forks and runs the
    commands; \<open>fire_effect\<close> links it to the effects of the call table.
  \<^item> \<open>Capture\<close>: the packet loop of \<open>main\<close>. \<open>process_packet\<close> is one iteration: periodic clean-up,
    link layer, later fragments, the tests for UDP and TCP, the RTP lookups by destination and
    source, then SIP (\<open>handle_sip\<close>, \<open>new_call\<close>, \<open>call_packet\<close>). \<open>capture_loop\<close> runs it over what
    \<open>pcap_next_ex\<close> delivers, \<open>run_capture\<close> adds the final clean-up. The state (\<open>world\<close>) is the call
    table, the counters of \<open>main\<close>, the file system, and the log of effects on files and triggers.
  \<^item> \<open>Headers\<close>: the structures of \<open>pcapsipdump.h\<close> as accessors on the packet memory;
    \<open>ethernet_get_header_ip\<close> and \<open>skip_tunnel_ip_header\<close> (\<open>pcapsipdump_lib.cpp\<close>). \<open>Endian\<close>: \<open>HTONS\<close> and the
    detection of the byte order (\<open>pcapsipdump_endian.h\<close>).
  \<^item> \<open>Strlib\<close>: \<open>gettag\<close> and \<open>sdp_get_rtpmap_event\<close> (\<open>pcapsipdump_strlib.cpp\<close>).
  \<^item> \<open>SipParse\<close>: \<open>get_method\<close>, \<open>get_sip_peername\<close>, \<open>get_ip_port_from_sdp\<close>, \<open>get_ssrc\<close>,
    \<open>parse_size_string\<close>, \<open>memmem\<close> (\<open>pcapsipdump.cpp\<close>).
  \<^item> \<open>Template\<close>: \<open>expand_dir_template\<close>, \<open>mkdir_p\<close>, \<open>opts_sanity_check_d\<close> (\<open>pcapsipdump_lib.cpp\<close>).
  \<^item> \<open>Calltable\<close>: every operation of \<open>calltable.cpp\<close>; \<open>CalltableCache\<close>: the same class compiled
    with \<open>USE_CALLTABLE_CACHE\<close>.
  \<^item> \<open>Prelude\<close>, \<open>CStrings\<close>, \<open>CNumbers\<close>: memory, C strings and the functions of the C library the
    code uses (\<open>strstr\<close>, \<open>memcmp\<close>, \<open>atoi\<close>, \<open>sscanf\<close>, \<open>inet_addr\<close> and others).

  Memory is a list of bytes and a pointer an index into it. A load, store or copy out of bounds, a
  string without its NUL and an indeterminate buffer that is used give \<open>None\<close>, so \<open>\<noteq> None\<close> means
  that the C++ code has no undefined behaviour on the way. Integers have the width of LP64 Linux on a
  little-endian host. Times are integers; \<open>time_t\<close> differences in the table do not overflow.

  What the lemmas show:

  \<^item> The interfaces are locales, interpreted on the model: \<open>call_store\<close> (lookup after insert),
    \<open>bounded_flows\<close> (the four media flows of a call) and \<open>frag_store\<close> (the fragment map) in \<open>Calltable\<close>,
    \<open>tag_scanner\<close> in \<open>Strlib\<close>.
  \<^item> \<open>Calltable\<close>: the invariant \<open>ct_inv\<close> and its preservation, each operation's result, and the
    step relation \<open>ct_step\<close> of all operations, each step with the time of its packet and whether RTP
    is recorded.
  \<^item> \<open>CaptureTable\<close>: the packet loop is a sequence of such steps (so it keeps \<open>ct_inv\<close>), the sampling
    of \<open>-l\<close>, the schedule of the clean-up. \<open>CaptureFiles\<close>: every dumper is used between its opening and
    its closing (\<open>run_effects\<close>). \<open>CaptureRuns\<close>: what one RTP or SIP packet records. \<open>CaptureFragments\<close>:
    the later fragments of a datagram. \<open>CaptureTimes\<close>: what the times in the table mean for a whole
    capture (calls that fall silent are closed in time, \<open>-R none\<close> cuts calls, fragments of a short
    capture reach open files, the signal handlers end no call). \<open>CaptureSampling\<close>: which calls of a
    capture \<open>-l\<close> records. \<open>CaptureSafety\<close>: the loop is defined for every packet that meets
    \<open>packet_ok\<close>.
  \<^item> \<open>CalltableCache\<close>: where the caches agree with the scan of the table (\<open>cached_step\<close>), and where
    they do not.
  \<^item> This theory: the composition from the command line to the end of the capture.

  Bounds. \<open>gettag\<close> is a loop with fuel, called with one unit more than the region is long, which
  \<open>gettag_safe\<close> shows to be enough. \<open>packet_ok B\<close> is what the code needs of a packet: the capture
  buffer of libpcap extends 20 bytes past the captured bytes and has at least 128 bytes, and names
  and Call-IDs in the packet are at most \<open>B \<le> 255\<close> bytes. \<open>names_fit B\<close> asks that the template
  expands to at most 255 bytes. Both are necessary in kind: \<open>callid_template_window\<close> and
  \<open>peername_user_part\<close> show overruns beyond them.

  Parameters, because they are not under \<open>src\<close>: libpcap (what is delivered, whether a call
  succeeds), \<open>getopt\<close> (the options it yields), \<open>regexec\<close>, \<open>strftime\<close>, the file system (\<open>stat\<close>, \<open>mkdir\<close>,
  \<open>fopen\<close>, \<open>unlink\<close>), \<open>fork\<close>, \<open>execv\<close>, and when a vector moves its storage.

  Not modelled: messages and the usage text (output only); the registration of the signal handlers
  and a signal in the middle of an iteration (their bodies are \<open>signal_handler\<close>); the build
  checks (make); the wait for one child at the end of \<open>main\<close>; tests and packaging. The
  fields of the packet header structures are those the code reads.
\<close>

section \<open>From the command line to the end of the capture\<close>


text \<open>Reading a file with one INVITE, into the directory \<open>/s\<close>.\<close>

definition example_opts :: opts where
  "example_opts = test_opts\<lparr>opt_call_skip_n := 1, opt_fntemplate := str ''/s/%Y%m%d/%H/%Y%m%d-%H%M%S-%f-%t-%i.pcap''\<rparr>"

lemma example_setup:
  "case main_setup False (\<lambda>f t. f) (env_fs test_env) 0 (\<lambda>c. True) DLT_RAW 1 (\<lambda>p. True) (default_config False [])
      [(CHR ''r'', str ''a.pcap''), (CHR ''f'', []), (CHR ''d'', str ''/s'')] [] () of
     Some (Inr (opts, w)) \<Rightarrow> opts = example_opts | _ \<Rightarrow> False"
  by code_simp


end
